theory Spec2Isabelle
  imports Complex_Main "HOL-Library.Char_ord" "HOL-Library.List_Lexorder" "HOL-Library.Log_Nat"
begin

section \<open>Errors raised by the booking subsystem\<close>

text \<open>
  Every \<^verbatim>\<open>throw\<close> of the modelled services is one constructor, named after the
  message of the thrown \<^verbatim>\<open>Error\<close>:
  \<^item> \<open>EndTimeNotAfterStart\<close>: 'End time must be after start time' (slotGenerator);
  \<^item> \<open>CourtNotFound\<close>, \<open>CourtNotActive\<close>, \<open>InvalidTimeRange\<close>,
    \<open>AdvanceMoreThanFinal\<close>: the four messages of bookingCore;
  \<^item> \<open>SlotConflict\<close>: the 409 error of \<^verbatim>\<open>throwConflictError\<close>, carrying the labels;
  \<^item> \<open>AssignmentToConstant\<close>: the TypeError the JavaScript runtime raises when a
    \<^verbatim>\<open>const\<close> binding is assigned;
  \<^item> \<open>DuplicateKey\<close>: the E11000 error of the database's unique index;
  \<^item> \<open>RuleNotFoundOrInactive\<close>: 'Rule not found or inactive' (recurringGenerator);
  \<^item> \<open>IncludesOfUndefined\<close>: the TypeError of calling \<^verbatim>\<open>includes\<close> on
    \<^verbatim>\<open>undefined\<close>;
  \<^item> \<open>BookingNotFound\<close>: 'Booking not found' (booking controller).
\<close>

datatype error =
    EndTimeNotAfterStart
  | CourtNotFound
  | CourtNotActive
  | InvalidTimeRange
  | SlotConflict "string list"
  | AssignmentToConstant
  | AdvanceMoreThanFinal
  | DuplicateKey
  | RuleNotFoundOrInactive
  | IncludesOfUndefined
  | BookingNotFound

section \<open>Wall-clock labels: "HH:mm"\<close>

text \<open>
  \<^verbatim>\<open>moment(s, 'HH:mm')\<close> is modelled on the strings the services exchange: two digits,
  a colon, two digits, hour below 24 and minute below 60. Such a string denotes a
  minute of the current day; every other string is an invalid moment (\<open>None\<close>), for
  which \<^verbatim>\<open>isAfter\<close> and \<^verbatim>\<open>isBefore\<close> answer false.
\<close>

definition digit_val :: "char \<Rightarrow> nat option" where
  "digit_val c =
     (let n = (of_char c :: nat) in if 48 \<le> n \<and> n \<le> 57 then Some (n - 48) else None)"

definition digit_char :: "nat \<Rightarrow> char" where
  "digit_char n = char_of (48 + n)"

fun parseHHmm :: "string \<Rightarrow> nat option" where
  "parseHHmm [a, b, c, d, e] =
     (case (digit_val a, digit_val b, digit_val d, digit_val e) of
        (Some h1, Some h2, Some m1, Some m2) \<Rightarrow>
          if c = CHR '':'' \<and> 10 * h1 + h2 < 24 \<and> 10 * m1 + m2 < 60
          then Some (60 * (10 * h1 + h2) + (10 * m1 + m2))
          else None
      | _ \<Rightarrow> None)"
| "parseHHmm _ = None"

text \<open>\<^verbatim>\<open>format('HH:mm')\<close> of a moment given in minutes since today's midnight.\<close>

definition formatHHmm :: "nat \<Rightarrow> string" where
  "formatHHmm t =
     (let h = (t div 60) mod 24; m = t mod 60
      in [digit_char (h div 10), digit_char (h mod 10), CHR '':'',
          digit_char (m div 10), digit_char (m mod 10)])"

section \<open>Slot generator (slotGenerator.service.js)\<close>

text \<open>
  The \<^verbatim>\<open>while (current.isBefore(end))\<close> loop: push the label of \<open>current\<close>, add 15
  minutes.
\<close>

function slotLoop :: "nat \<Rightarrow> nat \<Rightarrow> string list \<Rightarrow> string list" where
  "slotLoop current endT slots =
     (if current < endT
      then slotLoop (current + 15) endT (slots @ [formatHHmm current])
      else slots)"
  by pat_completeness auto
termination
  by (relation "measure (\<lambda>(current, endT, slots). endT - current)") auto

declare slotLoop.simps [simp del]

definition generateSlots :: "string \<Rightarrow> string \<Rightarrow> error + string list" where
  "generateSlots startTime endTime =
     (case (parseHHmm startTime, parseHHmm endTime) of
        (Some current, Some endT) \<Rightarrow>
          if \<not> (endT > current) then Inl EndTimeNotAfterStart
          else Inr (slotLoop current endT [])
      | _ \<Rightarrow> Inl EndTimeNotAfterStart)"

section \<open>Dates (dateUtils.js and the runtime's Date)\<close>

text \<open>
  A \<^verbatim>\<open>Date\<close> is read in the server's local time zone as a calendar day (days since
  1970-01-01) and the milliseconds elapsed since that day's midnight (0 to 86399999).
  Daylight-saving shifts are outside the model.
\<close>

datatype jsdate = JSDate (dayOf: int) (msOf: int)

definition normalizeToMidnight :: "jsdate \<Rightarrow> jsdate" where
  "normalizeToMidnight date = JSDate (dayOf date) 0"

text \<open>Comparison of two dates as instants (\<^verbatim>\<open><=\<close>, \<^verbatim>\<open>$lt\<close>, \<^verbatim>\<open>$lte\<close>).\<close>

definition date_le :: "jsdate \<Rightarrow> jsdate \<Rightarrow> bool" where
  "date_le a b = (dayOf a < dayOf b \<or> (dayOf a = dayOf b \<and> msOf a \<le> msOf b))"

definition date_lt :: "jsdate \<Rightarrow> jsdate \<Rightarrow> bool" where
  "date_lt a b = (dayOf a < dayOf b \<or> (dayOf a = dayOf b \<and> msOf a < msOf b))"

text \<open>
  The proleptic Gregorian calendar of \<^verbatim>\<open>Date\<close>: day number to (year, month 1..12,
  day of month) and back, by the usual era computation (an era is 400 years, 146097
  days, counted from 0000-03-01).
\<close>

definition civil_from_days :: "int \<Rightarrow> int \<times> int \<times> int" where
  "civil_from_days z =
     (let z1 = z + 719468;
          era = z1 div 146097;
          doe = z1 mod 146097;
          yoe = (doe - doe div 1460 + doe div 36524 - doe div 146096) div 365;
          doy = doe - (365 * yoe + yoe div 4 - yoe div 100);
          mp = (5 * doy + 2) div 153;
          d = doy - (153 * mp + 2) div 5 + 1;
          m = (if mp < 10 then mp + 3 else mp - 9);
          y = yoe + era * 400
      in (if m \<le> 2 then y + 1 else y, m, d))"

definition days_from_civil :: "int \<Rightarrow> int \<Rightarrow> int \<Rightarrow> int" where
  "days_from_civil y m d =
     (let y1 = (if m \<le> 2 then y - 1 else y);
          era = y1 div 400;
          yoe = y1 mod 400;
          doy = (153 * (if m > 2 then m - 3 else m + 9) + 2) div 5 + d - 1;
          doe = yoe * 365 + yoe div 4 - yoe div 100 + doy
      in era * 146097 + doe - 719468)"

text \<open>\<^verbatim>\<open>getDay()\<close>: 0 = Sunday .. 6 = Saturday; 1970-01-01 was a Thursday.\<close>

definition getDay :: "jsdate \<Rightarrow> int" where
  "getDay date = (dayOf date + 4) mod 7"

text \<open>\<^verbatim>\<open>getDate()\<close>: the day of the month, 1..31.\<close>

definition getDate :: "jsdate \<Rightarrow> int" where
  "getDate date = (case civil_from_days (dayOf date) of (y, m, d) \<Rightarrow> d)"

text \<open>
  \<^verbatim>\<open>d.setMonth(d.getMonth() + 3)\<close>: the month moves by three, the day of the month
  is kept and overflows into the following month when the target month is shorter.
\<close>

definition setMonthPlus3 :: "jsdate \<Rightarrow> jsdate" where
  "setMonthPlus3 date =
     (case civil_from_days (dayOf date) of
        (y, m, d) \<Rightarrow>
          (let m0 = (m - 1) + 3
           in JSDate (days_from_civil (y + m0 div 12) (m0 mod 12 + 1) 1 + (d - 1)) (msOf date)))"

text \<open>\<^verbatim>\<open>d.setDate(d.getDate() + 1)\<close>: the same time of day on the next calendar day.\<close>

definition addOneDay :: "jsdate \<Rightarrow> jsdate" where
  "addOneDay date = JSDate (dayOf date + 1) (msOf date)"

section \<open>Numbers (the runtime's IEEE 754 doubles)\<close>

text \<open>
  A JavaScript number is a double: a finite value, one of the two infinities, or NaN.
  Finite values are kept as the rationals they denote; the two zeros are not told
  apart (the services never divide by a computed value, the only place where the sign
  of a zero shows).
\<close>

datatype jsnum = Fin rat | PosInf | NegInf | NaN

definition pow2 :: "int \<Rightarrow> rat" where
  "pow2 k = (if 0 \<le> k then 2 ^ nat k else 1 / 2 ^ nat (- k))"

text \<open>The binary exponent of a non-zero rational: the \<open>e\<close> with \<open>2^e \<le> |x| < 2^(e+1)\<close>.\<close>

definition expo :: "rat \<Rightarrow> int" where
  "expo x =
     (case quotient_of \<bar>x\<bar> of
        (p, q) \<Rightarrow>
          (let k = bitlen p - bitlen q
           in if pow2 k \<le> \<bar>x\<bar> then k else k - 1))"

text \<open>Rounding to the nearest integer, a tie going to the even one.\<close>

definition roundEven :: "rat \<Rightarrow> int" where
  "roundEven y =
     (let f = \<lfloor>y\<rfloor>; r = y - of_int f
      in if r < 1 / 2 then f else if 1 / 2 < r then f + 1 else if even f then f else f + 1)"

text \<open>
  The double nearest to an exact result (binary64, round to nearest, ties to even): 53
  significant bits, exponents from -1022 (below it the spacing stays 2^-1074), and
  overflow to an infinity when the rounded magnitude reaches 2^1024.
\<close>

definition fl :: "rat \<Rightarrow> jsnum" where
  "fl x =
     (if x = 0 then Fin 0
      else (let u = pow2 (max (expo x) (- 1022) - 52);
                y = of_int (roundEven (x / u)) * u
            in if 1024 \<le> expo y then (if 0 < x then PosInf else NegInf) else Fin y))"

text \<open>The operators \<^verbatim>\<open>-\<close>, \<^verbatim>\<open>*\<close> and \<^verbatim>\<open>/\<close> on numbers.\<close>

fun jsub :: "jsnum \<Rightarrow> jsnum \<Rightarrow> jsnum" where
  "jsub NaN b = NaN"
| "jsub a NaN = NaN"
| "jsub PosInf PosInf = NaN"
| "jsub NegInf NegInf = NaN"
| "jsub PosInf b = PosInf"
| "jsub NegInf b = NegInf"
| "jsub a PosInf = NegInf"
| "jsub a NegInf = PosInf"
| "jsub (Fin a) (Fin b) = fl (a - b)"

fun jmul :: "jsnum \<Rightarrow> jsnum \<Rightarrow> jsnum" where
  "jmul NaN b = NaN"
| "jmul a NaN = NaN"
| "jmul (Fin a) (Fin b) = fl (a * b)"
| "jmul (Fin a) PosInf = (if a = 0 then NaN else if 0 < a then PosInf else NegInf)"
| "jmul (Fin a) NegInf = (if a = 0 then NaN else if 0 < a then NegInf else PosInf)"
| "jmul PosInf (Fin b) = (if b = 0 then NaN else if 0 < b then PosInf else NegInf)"
| "jmul NegInf (Fin b) = (if b = 0 then NaN else if 0 < b then NegInf else PosInf)"
| "jmul PosInf PosInf = PosInf"
| "jmul NegInf NegInf = PosInf"
| "jmul PosInf NegInf = NegInf"
| "jmul NegInf PosInf = NegInf"

text \<open>
  Division by a finite non-zero number, which is all the services do (by the literals
  4 and 100); a division by zero is answered as for the positive zero.
\<close>

fun jdiv :: "jsnum \<Rightarrow> jsnum \<Rightarrow> jsnum" where
  "jdiv NaN b = NaN"
| "jdiv a NaN = NaN"
| "jdiv (Fin a) (Fin b) =
     (if b = 0 then (if a = 0 then NaN else if 0 < a then PosInf else NegInf)
      else fl (a / b))"
| "jdiv (Fin a) PosInf = Fin 0"
| "jdiv (Fin a) NegInf = Fin 0"
| "jdiv PosInf (Fin b) = (if 0 \<le> b then PosInf else NegInf)"
| "jdiv NegInf (Fin b) = (if 0 \<le> b then NegInf else PosInf)"
| "jdiv PosInf b = NaN"
| "jdiv NegInf b = NaN"

text \<open>The comparisons \<^verbatim>\<open><\<close> and \<^verbatim>\<open><=\<close> (\<^verbatim>\<open>a > b\<close> is \<^verbatim>\<open>b < a\<close>): false when NaN is involved.\<close>

fun jlt :: "jsnum \<Rightarrow> jsnum \<Rightarrow> bool" where
  "jlt NaN b = False"
| "jlt a NaN = False"
| "jlt PosInf b = False"
| "jlt a NegInf = False"
| "jlt NegInf b = True"
| "jlt a PosInf = True"
| "jlt (Fin a) (Fin b) = (a < b)"

fun jle :: "jsnum \<Rightarrow> jsnum \<Rightarrow> bool" where
  "jle NaN b = False"
| "jle a NaN = False"
| "jle NegInf b = True"
| "jle a PosInf = True"
| "jle PosInf b = False"
| "jle a NegInf = False"
| "jle (Fin a) (Fin b) = (a \<le> b)"

text \<open>\<^verbatim>\<open>Math.ceil\<close> and \<^verbatim>\<open>Math.max\<close>.\<close>

fun jceil :: "jsnum \<Rightarrow> jsnum" where
  "jceil (Fin a) = Fin (of_int \<lceil>a\<rceil>)"
| "jceil a = a"

definition jmax :: "jsnum \<Rightarrow> jsnum \<Rightarrow> jsnum" where
  "jmax a b = (if a = NaN \<or> b = NaN then NaN else if jlt a b then b else a)"

section \<open>Documents (the Mongoose models)\<close>

type_synonym objectId = nat

datatype courtStatus = ACTIVE | INACTIVE
datatype status = BOOKED | CANCELLED | COMPLETED
datatype source = MANUAL | RECURRING
datatype discountType = PERCENT | FLAT | NONE
datatype paymentStatus = PENDING | PARTIAL | PAID
datatype paymentMode = CASH | UPI | CARD | ONLINE
datatype recurrenceType = WEEKLY | MONTHLY
datatype weekday = SUN | MON | TUE | WED | THU | FRI | SAT
datatype ruleStatus = RULE_ACTIVE | RULE_PAUSED

record court =
  c_id :: objectId
  c_name :: string
  c_weekdayPrice :: jsnum
  c_weekendPrice :: jsnum
  c_status :: courtStatus

record booking =
  b_id :: objectId
  b_customerName :: string
  b_customerPhone :: string
  b_sportType :: string
  b_courtId :: objectId
  b_bookingDate :: jsdate
  b_startTime :: string
  b_endTime :: string
  b_totalSlots :: nat
  b_baseAmount :: jsnum
  b_discountType :: discountType
  b_discountValue :: jsnum
  b_finalAmount :: jsnum
  b_createdBy :: objectId
  b_status :: status
  b_source :: source
  b_recurringId :: "objectId option"

record bookingSlot =
  s_bookingId :: objectId
  s_courtId :: objectId
  s_bookingDate :: jsdate
  s_slotTime :: string
  s_status :: status

record payment =
  p_bookingId :: objectId
  p_totalAmount :: jsnum
  p_advancePaid :: jsnum
  p_balanceAmount :: jsnum
  p_paymentMode :: paymentMode
  p_paymentNotes :: "string option"
  p_status :: paymentStatus

record recurringBooking =
  r_id :: objectId
  r_customerName :: string
  r_customerPhone :: string
  r_sportType :: string
  r_courtId :: objectId
  r_recurrenceType :: recurrenceType
  r_daysOfWeek :: "weekday list option"
  r_fixedDate :: "int option"
  r_startTime :: string
  r_endTime :: string
  r_startDate :: jsdate
  r_endDate :: "jsdate option"
  r_advancePaid :: "jsnum option"
  r_discountType :: "discountType option"
  r_discountValue :: "jsnum option"
  r_status :: ruleStatus
  r_createdBy :: objectId

text \<open>
  The database: the five collections the services touch, and the next fresh
  \<^verbatim>\<open>ObjectId\<close>. A session's writes are applied as they happen.
\<close>

record db =
  db_courts :: "court list"
  db_rules :: "recurringBooking list"
  db_bookings :: "booking list"
  db_slots :: "bookingSlot list"
  db_payments :: "payment list"
  db_nextId :: objectId

section \<open>The BookingSlot collection and its partial unique index\<close>

text \<open>
  \<^verbatim>\<open>index({courtId: 1, bookingDate: 1, slotTime: 1},
        {unique: true, partialFilterExpression: {status: 'BOOKED'}})\<close>:
  only rows whose status is BOOKED are entered in the index; a write that would enter a
  key already present is rejected with a duplicate-key error.
\<close>

definition slotKey :: "bookingSlot \<Rightarrow> objectId \<times> jsdate \<times> string" where
  "slotKey r = (s_courtId r, s_bookingDate r, s_slotTime r)"

definition bookedKeys :: "bookingSlot list \<Rightarrow> (objectId \<times> jsdate \<times> string) list" where
  "bookedKeys rows = map slotKey (filter (\<lambda>r. s_status r = BOOKED) rows)"

text \<open>\<^verbatim>\<open>insertMany\<close> (ordered): the documents go in one by one, stopping at the first error.\<close>

fun insertManySlots :: "bookingSlot list \<Rightarrow> bookingSlot list \<Rightarrow> (error + unit) \<times> bookingSlot list" where
  "insertManySlots [] rows = (Inr (), rows)"
| "insertManySlots (doc # docs) rows =
     (if s_status doc = BOOKED \<and> slotKey doc \<in> set (bookedKeys rows)
      then (Inl DuplicateKey, rows)
      else insertManySlots docs (rows @ [doc]))"

text \<open>
  \<^verbatim>\<open>updateMany(filter, {status})\<close>: the matching rows are rewritten one by one; a row that
  enters the index (it becomes BOOKED) is checked against all the other rows.
  \<open>seen\<close> holds the rows already passed, \<open>todo\<close> those still ahead.
\<close>

fun updateManySlots ::
  "(bookingSlot \<Rightarrow> bool) \<Rightarrow> status \<Rightarrow> bookingSlot list \<Rightarrow> bookingSlot list \<Rightarrow> error + bookingSlot list" where
  "updateManySlots match st seen [] = Inr seen"
| "updateManySlots match st seen (r # todo) =
     (if match r
      then (if st = BOOKED \<and> s_status r \<noteq> BOOKED \<and> slotKey r \<in> set (bookedKeys (seen @ todo))
            then Inl DuplicateKey
            else updateManySlots match st (seen @ [r\<lparr>s_status := st\<rparr>]) todo)
      else updateManySlots match st (seen @ [r]) todo)"

section \<open>Pricing calculator (pricing.service.js)\<close>

definition calculatePrice :: "court \<Rightarrow> nat \<Rightarrow> jsdate \<Rightarrow> jsnum" where
  "calculatePrice court totalSlots bookingDate =
     (let dayOfWeek = getDay bookingDate;
          hourlyRate = (if dayOfWeek = 0 \<or> dayOfWeek = 6 then c_weekendPrice court
                        else c_weekdayPrice court);
          slotPrice = jdiv hourlyRate (Fin 4)
      in jmul slotPrice (Fin (of_nat totalSlots)))"

section \<open>Slot availability checker (slotValidation.service.js)\<close>

record availability =
  available :: bool
  conflicts :: "string list"

text \<open>\<^verbatim>\<open>[...new Set(xs)]\<close>: the distinct elements in order of first occurrence.\<close>

definition setInOrder :: "'a list \<Rightarrow> 'a list" where
  "setInOrder xs = rev (remdups (rev xs))"

text \<open>The rows selected by the query of \<^verbatim>\<open>checkSlotAvailability\<close>.\<close>

definition conflictQuery ::
  "objectId \<Rightarrow> jsdate \<Rightarrow> string list \<Rightarrow> objectId option \<Rightarrow> bookingSlot \<Rightarrow> bool" where
  "conflictQuery courtId normalizedDate slots excludeBookingId r =
     (s_courtId r = courtId \<and> s_bookingDate r = normalizedDate \<and> s_slotTime r \<in> set slots
      \<and> s_status r = BOOKED
      \<and> (case excludeBookingId of None \<Rightarrow> True | Some b \<Rightarrow> s_bookingId r \<noteq> b))"

definition checkSlotAvailability ::
  "objectId \<Rightarrow> jsdate \<Rightarrow> string \<Rightarrow> string \<Rightarrow> objectId option \<Rightarrow> db \<Rightarrow> error + availability" where
  "checkSlotAvailability courtId bookingDate startTime endTime excludeBookingId d =
     (case generateSlots startTime endTime of
        Inl e \<Rightarrow> Inl e
      | Inr slots \<Rightarrow>
          (let normalizedDate = normalizeToMidnight bookingDate;
               found = filter (conflictQuery courtId normalizedDate slots excludeBookingId) (db_slots d)
           in if length found > 0
              then Inr \<lparr>available = False, conflicts = sort (setInOrder (map s_slotTime found))\<rparr>
              else Inr \<lparr>available = True, conflicts = []\<rparr>))"

section \<open>Booking core (bookingCore.service.js)\<close>

text \<open>
  The argument object of \<^verbatim>\<open>createSingleBooking\<close>. A key that may be absent is an
  option. The last two fields are keys that callers set but the function never
  destructures.
\<close>

record bookingData =
  d_customerName :: string
  d_customerPhone :: string
  d_sportType :: string
  d_courtId :: objectId
  d_bookingDate :: jsdate
  d_startTime :: string
  d_endTime :: string
  d_discountType :: "discountType option"
  d_discountValue :: "jsnum option"
  d_advancePaid :: "jsnum option"
  d_paymentMode :: "paymentMode option"
  d_paymentNotes :: "string option"
  d_createdBy :: objectId
  d_source :: "source option"
  d_recurringId :: "objectId option"
  d_skipAvailabilityCheck :: "bool option"
  d_paymentStatus :: "paymentStatus option"
  d_bookingSource :: "source option"
  d_recurringRuleId :: "objectId option"

text \<open>
  \<^verbatim>\<open>(v || 0)\<close> on an amount that may be absent: undefined, 0 and NaN are falsy.
\<close>

definition orZero :: "jsnum option \<Rightarrow> jsnum" where
  "orZero v =
     (case v of
        None \<Rightarrow> Fin 0
      | Some x \<Rightarrow> if x = NaN \<or> x = Fin 0 then Fin 0 else x)"

text \<open>Step 4 of \<^verbatim>\<open>createSingleBooking\<close>: the discount, before rounding up.\<close>

definition applyDiscount :: "jsnum \<Rightarrow> discountType option \<Rightarrow> jsnum option \<Rightarrow> jsnum" where
  "applyDiscount baseAmount discountType discountValue =
     (if discountType = Some PERCENT
      then jsub baseAmount (jdiv (jmul baseAmount (orZero discountValue)) (Fin 100))
      else if discountType = Some FLAT then jsub baseAmount (orZero discountValue)
      else baseAmount)"

text \<open>
  Step 3: the availability check, the conflict error, and the \<^verbatim>\<open>deleteMany\<close> of the
  rows of the same court, date and labels whose status is not BOOKED.
\<close>

definition availabilityStep ::
  "objectId \<Rightarrow> jsdate \<Rightarrow> string \<Rightarrow> string \<Rightarrow> string list \<Rightarrow> db \<Rightarrow> (error + unit) \<times> db" where
  "availabilityStep courtId normalizedDate startTime endTime slots d =
     (case checkSlotAvailability courtId normalizedDate startTime endTime None d of
        Inl e \<Rightarrow> (Inl e, d)
      | Inr availability \<Rightarrow>
          if \<not> available availability then (Inl (SlotConflict (conflicts availability)), d)
          else (Inr (),
                d\<lparr>db_slots :=
                    filter (\<lambda>r. \<not> (s_courtId r = courtId \<and> s_bookingDate r = normalizedDate
                                    \<and> s_slotTime r \<in> set slots \<and> s_status r \<noteq> BOOKED))
                      (db_slots d)\<rparr>))"

text \<open>
  Steps 5 to 7: \<^verbatim>\<open>Booking.create\<close>, \<^verbatim>\<open>BookingSlot.insertMany\<close>,
  \<^verbatim>\<open>Payment.create\<close>. The function neither commits nor aborts: when the insertion of
  the slots fails, the writes made so far stay in the session it was given.
\<close>

definition persistBooking ::
  "bookingData \<Rightarrow> jsdate \<Rightarrow> string list \<Rightarrow> jsnum \<Rightarrow> jsnum \<Rightarrow> source \<Rightarrow> db
     \<Rightarrow> (error + booking) \<times> db" where
  "persistBooking bookingData normalizedDate slots baseAmount finalAmount src d =
     (let newBooking =
            \<lparr>b_id = db_nextId d,
             b_customerName = d_customerName bookingData,
             b_customerPhone = d_customerPhone bookingData,
             b_sportType = d_sportType bookingData,
             b_courtId = d_courtId bookingData,
             b_bookingDate = normalizedDate,
             b_startTime = d_startTime bookingData,
             b_endTime = d_endTime bookingData,
             b_totalSlots = length slots,
             b_baseAmount = baseAmount,
             b_discountType = (case d_discountType bookingData of None \<Rightarrow> NONE | Some t \<Rightarrow> t),
             b_discountValue =
               (case d_discountValue bookingData of None \<Rightarrow> Fin 0 | Some v \<Rightarrow> v),
             b_finalAmount = finalAmount,
             b_createdBy = d_createdBy bookingData,
             b_status = BOOKED,
             b_source = src,
             b_recurringId = d_recurringId bookingData\<rparr>;
          d1 = d\<lparr>db_bookings := db_bookings d @ [newBooking], db_nextId := db_nextId d + 1\<rparr>;
          bookingSlots =
            map (\<lambda>time. \<lparr>s_bookingId = b_id newBooking,
                         s_courtId = d_courtId bookingData,
                         s_bookingDate = normalizedDate,
                         s_slotTime = time,
                         s_status = BOOKED\<rparr>) slots
      in case insertManySlots bookingSlots (db_slots d1) of
           (Inl e, rows) \<Rightarrow> (Inl e, d1\<lparr>db_slots := rows\<rparr>)
         | (Inr u, rows) \<Rightarrow>
             (let advance = orZero (d_advancePaid bookingData);
                  newPayment =
                    \<lparr>p_bookingId = b_id newBooking,
                     p_totalAmount = finalAmount,
                     p_advancePaid = advance,
                     p_balanceAmount = jsub finalAmount advance,
                     p_paymentMode = (case d_paymentMode bookingData of None \<Rightarrow> CASH | Some m \<Rightarrow> m),
                     p_paymentNotes = d_paymentNotes bookingData,
                     p_status =
                       (case d_paymentStatus bookingData of
                          Some ps \<Rightarrow> ps
                        | None \<Rightarrow>
                            if jle advance (Fin 0) then PENDING
                            else if jle finalAmount advance then PAID else PARTIAL)\<rparr>
              in (Inr newBooking,
                  d1\<lparr>db_slots := rows, db_payments := db_payments d1 @ [newPayment]\<rparr>)))"

text \<open>
  \<^verbatim>\<open>createSingleBooking(bookingData, session)\<close>. The destructuring binds every key
  with \<^verbatim>\<open>const\<close>; \<^verbatim>\<open>source\<close> defaults to 'MANUAL', \<^verbatim>\<open>recurringId\<close> and
  \<^verbatim>\<open>paymentStatus\<close> to null, \<^verbatim>\<open>skipAvailabilityCheck\<close> to false. The statement
  \<^verbatim>\<open>advancePaid = finalAmount\<close> under \<^verbatim>\<open>paymentStatus === 'PAID'\<close> assigns such a
  \<^verbatim>\<open>const\<close> binding, which the runtime answers with a TypeError.
\<close>

definition createSingleBooking :: "bookingData \<Rightarrow> db \<Rightarrow> (error + booking) \<times> db" where
  "createSingleBooking bookingData d =
     (let src = (case d_source bookingData of None \<Rightarrow> MANUAL | Some s \<Rightarrow> s);
          skipAvailabilityCheck =
            (case d_skipAvailabilityCheck bookingData of None \<Rightarrow> False | Some b \<Rightarrow> b);
          paymentStatus = d_paymentStatus bookingData;
          normalizedDate = normalizeToMidnight (d_bookingDate bookingData)
      in case find (\<lambda>c. c_id c = d_courtId bookingData) (db_courts d) of
           None \<Rightarrow> (Inl CourtNotFound, d)
         | Some court \<Rightarrow>
             if c_status court \<noteq> ACTIVE then (Inl CourtNotActive, d)
             else
               (case generateSlots (d_startTime bookingData) (d_endTime bookingData) of
                  Inl e \<Rightarrow> (Inl e, d)
                | Inr slots \<Rightarrow>
                    if length slots = 0 then (Inl InvalidTimeRange, d)
                    else
                      (case (if \<not> skipAvailabilityCheck
                             then availabilityStep (d_courtId bookingData) normalizedDate
                                    (d_startTime bookingData) (d_endTime bookingData) slots d
                             else (Inr (), d)) of
                         (Inl e, d1) \<Rightarrow> (Inl e, d1)
                       | (Inr u, d1) \<Rightarrow>
                           (let baseAmount =
                                  calculatePrice court (length slots) (d_bookingDate bookingData);
                                finalAmount =
                                  jmax (Fin 0) (jceil (applyDiscount baseAmount
                                     (d_discountType bookingData) (d_discountValue bookingData)))
                            in if paymentStatus = Some PAID then (Inl AssignmentToConstant, d1)
                               else if (case d_advancePaid bookingData of
                                          None \<Rightarrow> False
                                        | Some advancePaid \<Rightarrow> jlt finalAmount advancePaid)
                               then (Inl AdvanceMoreThanFinal, d1)
                               else persistBooking bookingData normalizedDate slots
                                      baseAmount finalAmount src d1))))"

section \<open>Status update and deletion (booking.controller.js)\<close>

text \<open>
  Both handlers own their transaction: on any error it is aborted, and the database is
  as before the call.
\<close>

definition updateBookingStatus :: "objectId \<Rightarrow> status \<Rightarrow> db \<Rightarrow> (error + booking) \<times> db" where
  "updateBookingStatus bookingId st d =
     (case find (\<lambda>b. b_id b = bookingId) (db_bookings d) of
        None \<Rightarrow> (Inl BookingNotFound, d)
      | Some booking \<Rightarrow>
          (case (if st = CANCELLED \<or> st = COMPLETED
                 then updateManySlots (\<lambda>r. s_bookingId r = b_id booking) st [] (db_slots d)
                 else if st = BOOKED \<and> b_status booking \<noteq> BOOKED
                 then (case checkSlotAvailability (b_courtId booking)
                               (normalizeToMidnight (b_bookingDate booking))
                               (b_startTime booking) (b_endTime booking) (Some (b_id booking)) d of
                         Inl e \<Rightarrow> Inl e
                       | Inr availability \<Rightarrow>
                           if \<not> available availability
                           then Inl (SlotConflict (conflicts availability))
                           else updateManySlots (\<lambda>r. s_bookingId r = b_id booking) BOOKED []
                                  (db_slots d))
                 else Inr (db_slots d)) of
             Inl e \<Rightarrow> (Inl e, d)
           | Inr rows \<Rightarrow>
               (let saved = booking\<lparr>b_status := st,
                                    b_bookingDate := normalizeToMidnight (b_bookingDate booking)\<rparr>
                in (Inr saved,
                    d\<lparr>db_slots := rows,
                      db_bookings :=
                        map (\<lambda>b. if b_id b = b_id booking then saved else b) (db_bookings d)\<rparr>))))"

definition deleteBooking :: "objectId \<Rightarrow> db \<Rightarrow> (error + unit) \<times> db" where
  "deleteBooking bookingId d =
     (case find (\<lambda>b. b_id b = bookingId) (db_bookings d) of
        None \<Rightarrow> (Inl BookingNotFound, d)
      | Some booking \<Rightarrow>
          (Inr (),
           d\<lparr>db_slots := filter (\<lambda>r. s_bookingId r \<noteq> b_id booking) (db_slots d),
             db_payments := filter (\<lambda>p. p_bookingId p \<noteq> b_id booking) (db_payments d),
             db_bookings := filter (\<lambda>b. b_id b \<noteq> b_id booking) (db_bookings d)\<rparr>))"

section \<open>Expiry sweep (cron.service.js)\<close>

text \<open>
  One run of the scheduled job at the instant \<open>now\<close>. An error aborts the run's
  transaction and is only logged, so the run then leaves the database as it was.
\<close>

definition expiredQuery :: "jsdate \<Rightarrow> booking \<Rightarrow> bool" where
  "expiredQuery now b =
     (let currentTime = formatHHmm (nat (msOf now div 60000));
          startOfDay = normalizeToMidnight now;
          endOfDay = JSDate (dayOf now) 86399999
      in b_status b = BOOKED
         \<and> (date_lt (b_bookingDate b) startOfDay
            \<or> (date_le startOfDay (b_bookingDate b) \<and> date_le (b_bookingDate b) endOfDay
               \<and> b_endTime b \<le> currentTime)))"

definition expirySweep :: "jsdate \<Rightarrow> db \<Rightarrow> db" where
  "expirySweep now d =
     (let expiredBookings = filter (expiredQuery now) (db_bookings d)
      in if length expiredBookings > 0
         then (let bookingIds = map b_id expiredBookings
               in case updateManySlots (\<lambda>r. s_bookingId r \<in> set bookingIds) COMPLETED []
                         (db_slots d) of
                    Inl e \<Rightarrow> d
                  | Inr rows \<Rightarrow>
                      d\<lparr>db_bookings :=
                          map (\<lambda>b. if b_id b \<in> set bookingIds then b\<lparr>b_status := COMPLETED\<rparr> else b)
                            (db_bookings d),
                        db_slots := rows\<rparr>)
         else d)"

section \<open>Recurrence expander and recurring processor (recurringGenerator.service.js)\<close>

fun DAYS_MAP :: "weekday \<Rightarrow> int" where
  "DAYS_MAP SUN = 0"
| "DAYS_MAP MON = 1"
| "DAYS_MAP TUE = 2"
| "DAYS_MAP WED = 3"
| "DAYS_MAP THU = 4"
| "DAYS_MAP FRI = 5"
| "DAYS_MAP SAT = 6"

text \<open>
  The \<^verbatim>\<open>while (currentDate <= endDate)\<close> loop. \<open>targetDayIndexes\<close> is
  \<^verbatim>\<open>rule.daysOfWeek?.map(...)\<close>, undefined when the rule has no day list; calling
  \<^verbatim>\<open>includes\<close> on it is then a TypeError.
\<close>

function dateLoop ::
  "recurringBooking \<Rightarrow> int list option \<Rightarrow> jsdate \<Rightarrow> jsdate \<Rightarrow> jsdate list \<Rightarrow> error + jsdate list" where
  "dateLoop rule targetDayIndexes currentDate endDate dates =
     (if date_le currentDate endDate
      then (case r_recurrenceType rule of
              WEEKLY \<Rightarrow>
                (case targetDayIndexes of
                   None \<Rightarrow> Inl IncludesOfUndefined
                 | Some idx \<Rightarrow>
                     dateLoop rule targetDayIndexes (addOneDay currentDate) endDate
                       (if getDay currentDate \<in> set idx
                        then dates @ [normalizeToMidnight currentDate] else dates))
            | MONTHLY \<Rightarrow>
                dateLoop rule targetDayIndexes (addOneDay currentDate) endDate
                  (if Some (getDate currentDate) = r_fixedDate rule
                   then dates @ [normalizeToMidnight currentDate] else dates))
      else Inr dates)"
  by pat_completeness auto
termination
  by (relation "measure (\<lambda>(rule, idx, currentDate, endDate, dates).
        nat (dayOf endDate - dayOf currentDate + 1))")
     (auto simp: date_le_def addOneDay_def)

declare dateLoop.simps [simp del]

definition generateDates :: "recurringBooking \<Rightarrow> error + jsdate list" where
  "generateDates rule =
     (let currentDate = normalizeToMidnight (r_startDate rule);
          endDate = (case r_endDate rule of
                       Some e \<Rightarrow> normalizeToMidnight e
                     | None \<Rightarrow> currentDate);
          endDate1 = (if r_endDate rule = None then setMonthPlus3 endDate else endDate);
          currentDate1 = normalizeToMidnight currentDate;
          endDate2 = normalizeToMidnight endDate1;
          targetDayIndexes = map_option (map DAYS_MAP) (r_daysOfWeek rule)
      in dateLoop rule targetDayIndexes currentDate1 endDate2 [])"

text \<open>
  \<^verbatim>\<open>date.toISOString().split('T')[0]\<close>: the calendar day of the instant in UTC, as
  "YYYY-MM-DD" (years outside 0 to 9999 are written with a sign and six digits). The
  model's dates are local, so the server's zone comes in as \<open>utcOffset\<close>, the minutes
  local time is ahead of UTC (330 for Asia/Kolkata, -300 for New York in winter).
\<close>

fun digits :: "nat \<Rightarrow> int \<Rightarrow> string" where
  "digits 0 n = []"
| "digits (Suc w) n = digits w (n div 10) @ [digit_char (nat (n mod 10))]"

definition toISODateString :: "int \<Rightarrow> jsdate \<Rightarrow> string" where
  "toISODateString utcOffset date =
     (let utcDay = (dayOf date * 86400000 + msOf date - utcOffset * 60000) div 86400000
      in case civil_from_days utcDay of
           (y, m, d) \<Rightarrow>
             (if 0 \<le> y \<and> y \<le> 9999 then digits 4 y
              else (if y < 0 then ''-'' else ''+'') @ digits 6 \<bar>y\<bar>)
             @ ''-'' @ digits 2 m @ ''-'' @ digits 2 d)"

text \<open>
  The report of \<^verbatim>\<open>processRecurringBooking\<close>. An entry of \<open>conflicts\<close> holds the ISO
  day string of the date and the caught error (the source stores the error's message).
\<close>

record results =
  success :: nat
  failed :: nat
  conflictList :: "(string \<times> error) list"

text \<open>The object literal passed to \<^verbatim>\<open>createSingleBooking\<close> for one date.\<close>

definition ruleBookingData :: "recurringBooking \<Rightarrow> jsdate \<Rightarrow> bookingData" where
  "ruleBookingData rule date =
     \<lparr>d_customerName = r_customerName rule,
      d_customerPhone = r_customerPhone rule,
      d_sportType = r_sportType rule,
      d_courtId = r_courtId rule,
      d_bookingDate = date,
      d_startTime = r_startTime rule,
      d_endTime = r_endTime rule,
      d_discountType = Some (case r_discountType rule of None \<Rightarrow> NONE | Some t \<Rightarrow> t),
      d_discountValue = Some (orZero (r_discountValue rule)),
      d_advancePaid = Some (orZero (r_advancePaid rule)),
      d_paymentMode = Some CASH,
      d_paymentNotes = Some ''Generated via Recurring Rule'',
      d_createdBy = r_createdBy rule,
      d_source = None,
      d_recurringId = None,
      d_skipAvailabilityCheck = None,
      d_paymentStatus = None,
      d_bookingSource = Some RECURRING,
      d_recurringRuleId = Some (r_id rule)\<rparr>"

text \<open>The \<^verbatim>\<open>for (const date of datesToBook)\<close> loop with its inner try/catch.\<close>

fun bookingLoop ::
  "int \<Rightarrow> recurringBooking \<Rightarrow> jsdate list \<Rightarrow> results \<Rightarrow> db \<Rightarrow> results \<times> db" where
  "bookingLoop utcOffset rule [] res d = (res, d)"
| "bookingLoop utcOffset rule (date # dates) res d =
     (case createSingleBooking (ruleBookingData rule date) d of
        (Inr b, d1) \<Rightarrow> bookingLoop utcOffset rule dates (res\<lparr>success := success res + 1\<rparr>) d1
      | (Inl e, d1) \<Rightarrow>
          bookingLoop utcOffset rule dates
            (res\<lparr>failed := failed res + 1,
                 conflictList := conflictList res @ [(toISODateString utcOffset date, e)]\<rparr>) d1)"

definition processRecurringBooking ::
  "int \<Rightarrow> objectId \<Rightarrow> db \<Rightarrow> (error + results) \<times> db" where
  "processRecurringBooking utcOffset ruleId d =
     (case find (\<lambda>r. r_id r = ruleId) (db_rules d) of
        None \<Rightarrow> (Inl RuleNotFoundOrInactive, d)
      | Some rule \<Rightarrow>
          if r_status rule \<noteq> RULE_ACTIVE then (Inl RuleNotFoundOrInactive, d)
          else (case generateDates rule of
                  Inl e \<Rightarrow> (Inl e, d)
                | Inr datesToBook \<Rightarrow>
                    (case bookingLoop utcOffset rule datesToBook
                            \<lparr>success = 0, failed = 0, conflictList = []\<rparr> d of
                       (res, d1) \<Rightarrow> (Inr res, d1))))"

section \<open>Sequences of operations on the database\<close>

text \<open>
  The operations of the claims that write BookingSlot rows, and the state a sequence of
  them leaves. A call of \<^verbatim>\<open>createSingleBooking\<close> or \<^verbatim>\<open>processRecurringBooking\<close> counts
  with whatever it wrote, also when it failed; the latter carries the server's zone.
\<close>

datatype operation =
    CreateSingleBooking bookingData
  | UpdateBookingStatus objectId status
  | DeleteBooking objectId
  | ExpirySweep jsdate
  | ProcessRecurringBooking int objectId

fun applyOperation :: "operation \<Rightarrow> db \<Rightarrow> db" where
  "applyOperation (CreateSingleBooking bookingData) d = snd (createSingleBooking bookingData d)"
| "applyOperation (UpdateBookingStatus bookingId st) d = snd (updateBookingStatus bookingId st d)"
| "applyOperation (DeleteBooking bookingId) d = snd (deleteBooking bookingId d)"
| "applyOperation (ExpirySweep now) d = expirySweep now d"
| "applyOperation (ProcessRecurringBooking utcOffset ruleId) d =
     snd (processRecurringBooking utcOffset ruleId d)"

fun runOperations :: "operation list \<Rightarrow> db \<Rightarrow> db" where
  "runOperations [] d = d"
| "runOperations (operation # operations) d = runOperations operations (applyOperation operation d)"

section \<open>Specification-side notions used in the statements\<close>

text \<open>
  The payment status the spec derives from the advance and the final amount: PENDING if
  the advance is at most 0, PAID if it reaches the final amount, else PARTIAL.
\<close>

definition derivedStatus :: "jsnum \<Rightarrow> jsnum \<Rightarrow> paymentStatus" where
  "derivedStatus advance finalAmount =
     (if jle advance (Fin 0) then PENDING
      else if jle finalAmount advance then PAID else PARTIAL)"


text \<open>
  The calendar in the spec's terms, without the \<^verbatim>\<open>Date\<close> methods: the weekday of a day
  number (day 0, 1970-01-01, was a Thursday), its day of the month, and the day
  \<open>k\<close> months later (same day of the month, running over into the next month when
  the target month is too short).
\<close>

definition weekdayOf :: "int \<Rightarrow> weekday" where
  "weekdayOf n = [THU, FRI, SAT, SUN, MON, TUE, WED] ! nat (n mod 7)"

definition dayOfMonth :: "int \<Rightarrow> int" where
  "dayOfMonth n = snd (snd (civil_from_days n))"

definition plusMonths :: "int \<Rightarrow> int \<Rightarrow> int" where
  "plusMonths k n =
     (case civil_from_days n of
        (y, m, d) \<Rightarrow>
          (let months = 12 * y + (m - 1) + k
           in days_from_civil (months div 12) (months mod 12 + 1) 1 + (d - 1)))"

text \<open>
  The spec's inclusion rule for the calendar day \<open>n\<close> of a rule: for WEEKLY, the
  weekday of \<open>n\<close> is in the rule's day set; for MONTHLY, the day of the month of \<open>n\<close>
  equals the rule's fixed day.
\<close>

definition dayIncluded :: "recurringBooking \<Rightarrow> int \<Rightarrow> bool" where
  "dayIncluded rule n =
     (case r_recurrenceType rule of
        WEEKLY \<Rightarrow>
          (case r_daysOfWeek rule of
             Some days \<Rightarrow> weekdayOf n \<in> set days
           | None \<Rightarrow> False)
      | MONTHLY \<Rightarrow> r_fixedDate rule = Some (dayOfMonth n))"

text \<open>
  The last day of a rule's window: the day of its end date, or the day three months
  after its start date when it has none.
\<close>

definition windowEnd :: "recurringBooking \<Rightarrow> int" where
  "windowEnd rule =
     (case r_endDate rule of
        Some e \<Rightarrow> dayOf e
      | None \<Rightarrow> plusMonths 3 (dayOf (r_startDate rule)))"

section \<open>Example data\<close>

text \<open>
  One court at 400 per weekday hour and 600 per weekend hour; a booking request for
  Monday 2024-01-01 (day 19723), 06:00 to 07:00, with a 50 percent discount and an
  advance of 100; a weekly rule for Mondays and Wednesdays, 2024-01-01 to 2024-01-11.
\<close>

definition exampleCourt :: court where
  "exampleCourt =
     \<lparr>c_id = 1, c_name = ''Turf A'', c_weekdayPrice = Fin 400, c_weekendPrice = Fin 600,
      c_status = ACTIVE\<rparr>"

definition exampleData :: bookingData where
  "exampleData =
     \<lparr>d_customerName = ''Asha'', d_customerPhone = ''5550100'', d_sportType = ''Football'',
      d_courtId = 1, d_bookingDate = JSDate 19723 34200000,
      d_startTime = ''06:00'', d_endTime = ''07:00'',
      d_discountType = Some PERCENT, d_discountValue = Some (Fin 50),
      d_advancePaid = Some (Fin 100),
      d_paymentMode = None, d_paymentNotes = None, d_createdBy = 5,
      d_source = None, d_recurringId = None, d_skipAvailabilityCheck = None,
      d_paymentStatus = None, d_bookingSource = None, d_recurringRuleId = None\<rparr>"

definition exampleRule :: recurringBooking where
  "exampleRule =
     \<lparr>r_id = 7, r_customerName = ''Asha'', r_customerPhone = ''5550100'',
      r_sportType = ''Football'', r_courtId = 1,
      r_recurrenceType = WEEKLY, r_daysOfWeek = Some [MON, WED], r_fixedDate = None,
      r_startTime = ''06:00'', r_endTime = ''07:00'',
      r_startDate = JSDate 19723 0, r_endDate = Some (JSDate 19733 0),
      r_advancePaid = None, r_discountType = None, r_discountValue = None,
      r_status = RULE_ACTIVE, r_createdBy = 5\<rparr>"

definition exampleDb :: db where
  "exampleDb =
     \<lparr>db_courts = [exampleCourt], db_rules = [exampleRule], db_bookings = [],
      db_slots = [], db_payments = [], db_nextId = 10\<rparr>"

section \<open>Properties of the slot generator\<close>

lemma digit_char_val: "digit_val c = Some n \<Longrightarrow> digit_char n = c"
  by (auto simp: digit_val_def digit_char_def Let_def split: if_splits)

lemma digit_val_char: "n < 10 \<Longrightarrow> digit_val (digit_char n) = Some n"
  by (simp add: digit_val_def digit_char_def Let_def)

lemma digit_val_lt10: "digit_val c = Some n \<Longrightarrow> n < 10"
  by (auto simp: digit_val_def Let_def split: if_splits)

lemma parseHHmm_bound: "parseHHmm s = Some t \<Longrightarrow> t < 1440"
  by (induction s rule: parseHHmm.induct) (auto split: option.splits if_splits)

lemma format_parse: "parseHHmm s = Some t \<Longrightarrow> formatHHmm t = s"
proof (induction s rule: parseHHmm.induct)
  case (1 a b c d e)
  then obtain h1 h2 m1 m2 where dv: "digit_val a = Some h1" "digit_val b = Some h2"
      "digit_val d = Some m1" "digit_val e = Some m2"
    and c: "c = CHR '':''" and h: "10 * h1 + h2 < 24" and m: "10 * m1 + m2 < 60"
    and t: "t = 60 * (10 * h1 + h2) + (10 * m1 + m2)"
    by (auto split: option.splits if_splits)
  have lt: "h1 < 10" "h2 < 10" "m1 < 10" "m2 < 10"
    using dv by (auto dest: digit_val_lt10)
  define H M where "H = 10 * h1 + h2" and "M = 10 * m1 + m2"
  have "t = 60 * H + M" "H < 24" "M < 60"
    using h m by (simp_all add: t H_def M_def)
  then have "(t div 60) mod 24 = H" "t mod 60 = M"
    by simp_all
  then have hh: "(t div 60) mod 24 = 10 * h1 + h2" and mm: "t mod 60 = 10 * m1 + m2"
    by (simp_all add: H_def M_def)
  have "digit_char ((10 * h1 + h2) div 10) = a" "digit_char ((10 * h1 + h2) mod 10) = b"
       "digit_char ((10 * m1 + m2) div 10) = d" "digit_char ((10 * m1 + m2) mod 10) = e"
    using dv lt by (simp_all add: digit_char_val)
  then show ?case
    by (simp add: formatHHmm_def Let_def hh mm c)
qed simp_all

lemma parse_format: "t < 1440 \<Longrightarrow> parseHHmm (formatHHmm t) = Some t"
proof -
  assume t: "t < 1440"
  let ?h = "(t div 60) mod 24" and ?m = "t mod 60"
  have h: "?h = t div 60" using t by simp
  have d: "?h div 10 < 10" "?h mod 10 < 10" "?m div 10 < 10" "?m mod 10 < 10"
    by simp_all
  have "10 * (?h div 10) + ?h mod 10 = ?h" "10 * (?m div 10) + ?m mod 10 = ?m"
    by simp_all
  moreover have "?h < 24" "?m < 60" by simp_all
  moreover have "60 * ?h + ?m = t" using h by simp
  ultimately show ?thesis
    using d by (simp add: formatHHmm_def Let_def digit_val_char del: mod_mod_trivial)
qed

lemma slot_count_step:
  assumes "current < endT"
  shows "(endT - current + 14) div 15 = Suc ((endT - (current + 15) + 14) div (15::nat))"
proof (cases "current + 15 \<le> endT")
  case True
  then have "endT - current + 14 = (endT - (current + 15) + 14) + 15" by simp
  then show ?thesis by (simp only: div_add_self2)
next
  case False
  then have z: "endT - (current + 15) = 0" by simp
  have "15 * 1 \<le> endT - current + 14" "endT - current + 14 < 15 * Suc 1"
    using assms False by simp_all
  then have "(endT - current + 14) div 15 = 1" by (rule div_nat_eqI)
  then show ?thesis by (simp add: z)
qed

lemma slotLoop_eq:
  "slotLoop current endT slots =
     slots @ map (\<lambda>k. formatHHmm (current + 15 * k)) [0..<(endT - current + 14) div 15]"
proof (induction current endT slots rule: slotLoop.induct)
  case (1 current endT slots)
  show ?case
  proof (cases "current < endT")
    case False
    then show ?thesis by (simp add: slotLoop.simps [of current endT slots])
  next
    case True
    define n where "n = (endT - (current + 15) + 14) div 15"
    have n': "(endT - (current + 15) + 14) div 15 = n"
      by (simp add: n_def)
    have n: "(endT - current + 14) div 15 = Suc n"
      unfolding n_def using True by (rule slot_count_step)
    have "slotLoop current endT slots = slotLoop (current + 15) endT (slots @ [formatHHmm current])"
      using True by (simp add: slotLoop.simps [of current endT slots])
    also have "\<dots> = (slots @ [formatHHmm current]) @
        map (\<lambda>k. formatHHmm (current + 15 + 15 * k)) [0..<n]"
      using "1.IH" [OF True] n' by simp
    also have "\<dots> = slots @ map (\<lambda>k. formatHHmm (current + 15 * k)) [0..<Suc n]"
      by (simp add: upt_conv_Cons map_Suc_upt [symmetric] add.assoc del: upt_Suc)
    finally show ?thesis by (simp only: n)
  qed
qed

lemma generateSlots_Inr:
  "generateSlots s e = Inr slots \<longleftrightarrow>
     (\<exists>a b. parseHHmm s = Some a \<and> parseHHmm e = Some b \<and> a < b
        \<and> slots = map (\<lambda>k. formatHHmm (a + 15 * k)) [0..<(b - a + 14) div 15])"
  by (auto simp: generateSlots_def slotLoop_eq split: option.splits)

lemma generateSlots_Inl: "generateSlots s e = Inl err \<Longrightarrow> err = EndTimeNotAfterStart"
  by (auto simp: generateSlots_def split: option.splits if_splits)

lemma slot_count_pos: "a < b \<Longrightarrow> 0 < (b - a + 14) div (15::nat)"
  by (simp add: div_greater_zero_iff)

lemma slot_index_lt: "k < (b - a + 14) div (15::nat) \<Longrightarrow> a + 15 * k < b"
proof -
  assume "k < (b - a + 14) div 15"
  then have "Suc k \<le> (b - a + 14) div 15" by simp
  then have "Suc k * 15 \<le> b - a + 14" by (simp add: less_eq_div_iff_mult_less_eq)
  then show ?thesis by simp
qed

lemma slot_count_exact: "15 dvd (n::nat) \<Longrightarrow> (n + 14) div 15 * 15 = n"
proof -
  assume "15 dvd n"
  then obtain q where q: "n = 15 * q" by (auto simp: dvd_def)
  have "(15 * q + 14) div 15 = q" by simp
  then show ?thesis by (simp add: q)
qed

lemma generateSlots_nonempty: "generateSlots s e \<noteq> Inr []"
  using slot_count_pos by (auto simp: generateSlots_Inr)

section \<open>C2: the labels produced by the slot generator\<close>

text \<open>
  Claim C2, as the code has it. For well-formed "HH:mm" inputs denoting the minutes
  \<open>a\<close> (start) and \<open>b\<close> (end): when \<open>b\<close> is strictly after \<open>a\<close>,
  \<^verbatim>\<open>generateSlots\<close> returns the labels of \<open>a\<close>, \<open>a + 15\<close>, \<open>a + 30\<close>, ... that lie
  strictly before \<open>b\<close>. Their number is \<open>(b - a) / 15\<close> rounded up, which is
  \<open>(b - a) / 15\<close> itself when the range is a whole number of quarters; the first
  label is the start, and the end is never among them. When \<open>b\<close> is not strictly
  after \<open>a\<close> the call fails with 'End time must be after start time'.
\<close>

theorem generateSlots_labels:
  assumes "parseHHmm startTime = Some a" and "parseHHmm endTime = Some b"
  shows "(a < b \<longrightarrow>
            (\<exists>slots. generateSlots startTime endTime = Inr slots
               \<and> length slots = (b - a + 14) div 15
               \<and> (15 dvd b - a \<longrightarrow> length slots * 15 = b - a)
               \<and> (\<forall>k < length slots. slots ! k = formatHHmm (a + 15 * k)
                                     \<and> parseHHmm (slots ! k) = Some (a + 15 * k))
               \<and> hd slots = startTime
               \<and> endTime \<notin> set slots))
       \<and> (\<not> a < b \<longrightarrow> generateSlots startTime endTime = Inl EndTimeNotAfterStart)"
proof (intro conjI impI)
  assume "\<not> a < b"
  then show "generateSlots startTime endTime = Inl EndTimeNotAfterStart"
    using assms by (simp add: generateSlots_def)
next
  assume ab: "a < b"
  define n where "n = (b - a + 14) div 15"
  define slots where "slots = map (\<lambda>k. formatHHmm (a + 15 * k)) [0..<n]"
  have gen: "generateSlots startTime endTime = Inr slots"
    using assms ab by (simp add: generateSlots_Inr slots_def n_def)
  have len: "length slots = n" by (simp add: slots_def)
  have b: "b < 1440" using assms(2) by (rule parseHHmm_bound)
  have nth: "slots ! k = formatHHmm (a + 15 * k) \<and> parseHHmm (slots ! k) = Some (a + 15 * k)"
    if "k < n" for k
  proof -
    have "a + 15 * k < b" using that unfolding n_def by (rule slot_index_lt)
    then have "parseHHmm (formatHHmm (a + 15 * k)) = Some (a + 15 * k)"
      using b by (simp add: parse_format)
    then show ?thesis using that by (simp add: slots_def)
  qed
  have pos: "0 < n" unfolding n_def using ab by (rule slot_count_pos)
  have hd: "hd slots = startTime"
  proof -
    have "slots \<noteq> []" using pos len by auto
    then have "hd slots = slots ! 0" by (rule hd_conv_nth)
    also have "\<dots> = formatHHmm a" using nth [OF pos, THEN conjunct1] by simp
    also have "\<dots> = startTime" using assms(1) by (rule format_parse)
    finally show ?thesis .
  qed
  have notin: "endTime \<notin> set slots"
  proof
    assume "endTime \<in> set slots"
    then obtain k where k: "k < n" and e: "slots ! k = endTime"
      using len by (auto simp: in_set_conv_nth)
    have "parseHHmm (slots ! k) = Some (a + 15 * k)" using nth [OF k] by (rule conjunct2)
    then have "a + 15 * k = b" using e assms(2) by simp
    moreover have "a + 15 * k < b" using k unfolding n_def by (rule slot_index_lt)
    ultimately show False by simp
  qed
  have exact: "15 dvd b - a \<longrightarrow> length slots * 15 = b - a"
    using slot_count_exact [of "b - a"] by (simp add: len n_def)
  show "\<exists>slots. generateSlots startTime endTime = Inr slots
               \<and> length slots = (b - a + 14) div 15
               \<and> (15 dvd b - a \<longrightarrow> length slots * 15 = b - a)
               \<and> (\<forall>k < length slots. slots ! k = formatHHmm (a + 15 * k)
                                     \<and> parseHHmm (slots ! k) = Some (a + 15 * k))
               \<and> hd slots = startTime
               \<and> endTime \<notin> set slots"
    using gen len exact nth hd notin unfolding n_def [symmetric] by blast
qed

text \<open>
  The theorem at the spec's own examples: \<^verbatim>\<open>generateSlots("06:00", "06:45")\<close> gives the
  three labels 06:00, 06:15, 06:30 and \<^verbatim>\<open>generateSlots("06:00", "06:00")\<close> fails.
\<close>

theorem generateSlots_labels_witness:
  "parseHHmm ''06:00'' = Some 360 \<and> parseHHmm ''06:45'' = Some 405
   \<and> generateSlots ''06:00'' ''06:45'' = Inr [''06:00'', ''06:15'', ''06:30'']
   \<and> length [''06:00'', ''06:15'', ''06:30''] * 15 = 405 - (360::nat)
   \<and> generateSlots ''06:00'' ''06:00'' = Inl EndTimeNotAfterStart"
proof -
  have p1: "parseHHmm ''06:00'' = Some 360" by code_simp
  have p2: "parseHHmm ''06:45'' = Some 405" by code_simp
  have g: "generateSlots ''06:00'' ''06:45'' = Inr [''06:00'', ''06:15'', ''06:30'']"
    by code_simp
  have "generateSlots ''06:00'' ''06:00'' = Inl EndTimeNotAfterStart"
    using generateSlots_labels [OF p1 p1] by simp
  moreover have "length [''06:00'', ''06:15'', ''06:30''] * 15 = 405 - (360::nat)"
    using generateSlots_labels [OF p1 p2] g by simp
  ultimately show ?thesis using p1 p2 g by simp
qed

text \<open>
  The count is not \<open>(end - start) / 15\<close> for every range: from 06:00 to 06:20 the
  loop runs twice, the second slot starting at 06:15, while 20 / 15 is neither 2 as a
  fraction nor 2 as an integer quotient.
\<close>

theorem generateSlots_count_counterexample:
  "parseHHmm ''06:00'' = Some 360 \<and> parseHHmm ''06:20'' = Some 380
   \<and> generateSlots ''06:00'' ''06:20'' = Inr [''06:00'', ''06:15'']
   \<and> rat_of_nat (length [''06:00'', ''06:15'']) \<noteq> (380 - 360) / 15
   \<and> length [''06:00'', ''06:15''] \<noteq> (380 - 360) div 15"
proof -
  have "parseHHmm ''06:00'' = Some 360" by code_simp
  moreover have "parseHHmm ''06:20'' = Some 380" by code_simp
  moreover have "generateSlots ''06:00'' ''06:20'' = Inr [''06:00'', ''06:15'']" by code_simp
  ultimately show ?thesis by simp
qed

section \<open>Properties of the number operations\<close>







text \<open>\<^verbatim>\<open>getDay()\<close> numbers the weekday of the date's day as \<^verbatim>\<open>DAYS_MAP\<close> does.\<close>

lemma getDay_weekdayOf: "getDay date = DAYS_MAP (weekdayOf (dayOf date))"
proof -
  define r where "r = dayOf date mod 7"
  have r: "0 \<le> r" "r < 7" by (simp_all add: r_def)
  have g: "getDay date = (r + 4) mod 7"
    by (simp add: getDay_def r_def mod_add_left_eq)
  from r consider "r = 0" | "r = 1" | "r = 2" | "r = 3" | "r = 4" | "r = 5" | "r = 6"
    by linarith
  then show ?thesis
    unfolding g weekdayOf_def r_def [symmetric]
    by cases simp_all
qed


section \<open>Errors of the booking core\<close>

lemma insertManySlots_err: "insertManySlots docs rows = (Inl e, rows') \<Longrightarrow> e = DuplicateKey"
  by (induction docs arbitrary: rows) (auto split: if_splits)

lemma persistBooking_err:
  "persistBooking bd nd slots base fin src d = (Inl e, d') \<Longrightarrow> e = DuplicateKey"
  by (auto simp: persistBooking_def Let_def split: prod.splits sum.splits dest: insertManySlots_err)

lemma checkSlotAvailability_err:
  "checkSlotAvailability c bd s e ex d = Inl err \<Longrightarrow> err = EndTimeNotAfterStart"
  by (auto simp: checkSlotAvailability_def Let_def split: sum.splits if_splits dest: generateSlots_Inl)

lemma availabilityStep_err:
  "availabilityStep c nd s e slots d = (Inl err, d') \<Longrightarrow>
     err = EndTimeNotAfterStart \<or> (\<exists>cs. err = SlotConflict cs)"
  by (auto simp: availabilityStep_def split: sum.splits if_splits dest: checkSlotAvailability_err)

section \<open>C10: the empty-slot-list guard of the booking core\<close>

text \<open>
  Claim C10. For every pair of inputs \<^verbatim>\<open>generateSlots\<close> either throws 'End time must
  be after start time' or returns at least one label, never the empty list. Hence no
  call of \<^verbatim>\<open>createSingleBooking\<close> ends in the 'Invalid time range' error guarded by
  \<^verbatim>\<open>slots.length === 0\<close>.
\<close>

theorem invalid_time_range_unreachable:
  "generateSlots startTime endTime \<noteq> Inr []
   \<and> (\<exists>slots. generateSlots startTime endTime = Inl EndTimeNotAfterStart
         \<or> (generateSlots startTime endTime = Inr slots \<and> 1 \<le> length slots))
   \<and> fst (createSingleBooking bookingData d) \<noteq> Inl InvalidTimeRange"
proof -
  have ne: "generateSlots s e \<noteq> Inr []" for s e by (rule generateSlots_nonempty)
  have "\<exists>slots. generateSlots startTime endTime = Inl EndTimeNotAfterStart
         \<or> (generateSlots startTime endTime = Inr slots \<and> 1 \<le> length slots)"
  proof (cases "generateSlots startTime endTime")
    case (Inl err)
    then show ?thesis using generateSlots_Inl by auto
  next
    case (Inr slots)
    then have "slots \<noteq> []" using ne by auto
    then show ?thesis using Inr by (cases slots) auto
  qed
  moreover have "fst (createSingleBooking bookingData d) \<noteq> Inl InvalidTimeRange"
  proof
    assume a: "fst (createSingleBooking bookingData d) = Inl InvalidTimeRange"
    then obtain d' where "createSingleBooking bookingData d = (Inl InvalidTimeRange, d')"
      by (cases "createSingleBooking bookingData d") auto
    then show False
      using ne [of "d_startTime bookingData" "d_endTime bookingData"]
      by (auto simp: createSingleBooking_def Let_def
               split: option.splits if_splits sum.splits prod.splits
               dest: generateSlots_Inl availabilityStep_err persistBooking_err)
  qed
  ultimately show ?thesis using ne by blast
qed

section \<open>Successful runs of the booking core\<close>


lemma availabilityStep_Inr:
  assumes "availabilityStep c nd s e slots d = (Inr u, d1)"
  shows "db_bookings d1 = db_bookings d \<and> db_payments d1 = db_payments d
         \<and> db_nextId d1 = db_nextId d \<and> db_courts d1 = db_courts d \<and> db_rules d1 = db_rules d"
  using assms by (auto simp: availabilityStep_def split: sum.splits if_splits)


lemma persistBooking_Inr:
  assumes "persistBooking bd nd slots base fin src d = (Inr b, d')"
  shows "b_id b = db_nextId d \<and> b_baseAmount b = base \<and> b_finalAmount b = fin
         \<and> b_totalSlots b = length slots \<and> b_source b = src
         \<and> b_recurringId b = d_recurringId bd \<and> b_status b = BOOKED
         \<and> b_bookingDate b = nd \<and> b_courtId b = d_courtId bd
         \<and> db_bookings d' = db_bookings d @ [b]
         \<and> db_payments d' = db_payments d @
              [\<lparr>p_bookingId = b_id b, p_totalAmount = fin,
                p_advancePaid = orZero (d_advancePaid bd),
                p_balanceAmount = jsub fin (orZero (d_advancePaid bd)),
                p_paymentMode = (case d_paymentMode bd of None \<Rightarrow> CASH | Some m \<Rightarrow> m),
                p_paymentNotes = d_paymentNotes bd,
                p_status = (case d_paymentStatus bd of
                              Some ps \<Rightarrow> ps
                            | None \<Rightarrow> derivedStatus (orZero (d_advancePaid bd)) fin)\<rparr>]"
proof -
  define docs where "docs = map (\<lambda>time. \<lparr>s_bookingId = db_nextId d,
                         s_courtId = d_courtId bd, s_bookingDate = nd,
                         s_slotTime = time, s_status = BOOKED\<rparr>) slots"
  obtain r rows where ins: "insertManySlots docs (db_slots d) = (r, rows)"
    by (cases "insertManySlots docs (db_slots d)") auto
  from assms ins have r: "r = Inr ()"
    by (cases r) (auto simp: persistBooking_def Let_def docs_def)
  from assms ins r have b: "b = \<lparr>b_id = db_nextId d,
             b_customerName = d_customerName bd,
             b_customerPhone = d_customerPhone bd,
             b_sportType = d_sportType bd,
             b_courtId = d_courtId bd,
             b_bookingDate = nd,
             b_startTime = d_startTime bd,
             b_endTime = d_endTime bd,
             b_totalSlots = length slots,
             b_baseAmount = base,
             b_discountType = (case d_discountType bd of None \<Rightarrow> NONE | Some t \<Rightarrow> t),
             b_discountValue = (case d_discountValue bd of None \<Rightarrow> Fin 0 | Some v \<Rightarrow> v),
             b_finalAmount = fin,
             b_createdBy = d_createdBy bd,
             b_status = BOOKED,
             b_source = src,
             b_recurringId = d_recurringId bd\<rparr>"
    by (simp add: persistBooking_def Let_def docs_def)
  from assms ins r have bk: "db_bookings d' = db_bookings d @ [b]"
    by (auto simp: persistBooking_def Let_def docs_def)
  from assms ins r have pay: "db_payments d' = db_payments d @
              [\<lparr>p_bookingId = db_nextId d, p_totalAmount = fin,
                p_advancePaid = orZero (d_advancePaid bd),
                p_balanceAmount = jsub fin (orZero (d_advancePaid bd)),
                p_paymentMode = (case d_paymentMode bd of None \<Rightarrow> CASH | Some m \<Rightarrow> m),
                p_paymentNotes = d_paymentNotes bd,
                p_status = (case d_paymentStatus bd of
                              Some ps \<Rightarrow> ps
                            | None \<Rightarrow> derivedStatus (orZero (d_advancePaid bd)) fin)\<rparr>]"
    by (cases "d_paymentStatus bd")
       (auto simp: persistBooking_def Let_def docs_def derivedStatus_def)
  show ?thesis using bk pay by (simp add: b)
qed

lemma createSingleBooking_court:
  assumes "createSingleBooking bd d = (Inr b, d')"
  shows "\<exists>court. find (\<lambda>c. c_id c = d_courtId bd) (db_courts d) = Some court
           \<and> c_status court = ACTIVE"
  using assms by (auto simp: createSingleBooking_def Let_def split: option.splits if_splits)

lemma createSingleBooking_slots:
  assumes "createSingleBooking bd d = (Inr b, d')"
  shows "\<exists>slots. generateSlots (d_startTime bd) (d_endTime bd) = Inr slots"
  using assms
  by (auto simp: createSingleBooking_def Let_def split: option.splits if_splits sum.splits)

lemma createSingleBooking_persist:
  assumes "createSingleBooking bd d = (Inr b, d')"
    and "find (\<lambda>c. c_id c = d_courtId bd) (db_courts d) = Some court"
    and "generateSlots (d_startTime bd) (d_endTime bd) = Inr slots"
  shows "d_paymentStatus bd \<noteq> Some PAID
         \<and> (case d_advancePaid bd of
               None \<Rightarrow> True
             | Some a \<Rightarrow> \<not> jlt (jmax (Fin 0) (jceil (applyDiscount
                   (calculatePrice court (length slots) (d_bookingDate bd))
                   (d_discountType bd) (d_discountValue bd)))) a)
         \<and> (\<exists>d1. db_bookings d1 = db_bookings d \<and> db_payments d1 = db_payments d
                \<and> db_nextId d1 = db_nextId d
                \<and> (\<forall>r \<in> set (db_slots d). s_status r = BOOKED \<longrightarrow> r \<in> set (db_slots d1))
                \<and> persistBooking bd (normalizeToMidnight (d_bookingDate bd)) slots
                     (calculatePrice court (length slots) (d_bookingDate bd))
                     (jmax (Fin 0) (jceil (applyDiscount
                        (calculatePrice court (length slots) (d_bookingDate bd))
                        (d_discountType bd) (d_discountValue bd))))
                     (case d_source bd of None \<Rightarrow> MANUAL | Some s \<Rightarrow> s) d1 = (Inr b, d'))"
proof -
  define fin where "fin = jmax (Fin 0) (jceil (applyDiscount
               (calculatePrice court (length slots) (d_bookingDate bd))
               (d_discountType bd) (d_discountValue bd)))"
  define step where "step =
      (if \<not> (case d_skipAvailabilityCheck bd of None \<Rightarrow> False | Some b \<Rightarrow> b)
       then availabilityStep (d_courtId bd) (normalizeToMidnight (d_bookingDate bd))
              (d_startTime bd) (d_endTime bd) slots d
       else (Inr (), d))"
  obtain r d1 where step_eq: "step = (r, d1)" by (cases step) auto
  have act: "c_status court = ACTIVE" and ne: "length slots \<noteq> 0"
    using assms by (auto simp: createSingleBooking_def Let_def split: if_splits)
  have unf: "createSingleBooking bd d =
      (case step of
         (Inl e, d1) \<Rightarrow> (Inl e, d1)
       | (Inr u, d1) \<Rightarrow>
           if d_paymentStatus bd = Some PAID then (Inl AssignmentToConstant, d1)
           else if (case d_advancePaid bd of None \<Rightarrow> False | Some a \<Rightarrow> jlt fin a)
           then (Inl AdvanceMoreThanFinal, d1)
           else persistBooking bd (normalizeToMidnight (d_bookingDate bd)) slots
                  (calculatePrice court (length slots) (d_bookingDate bd)) fin
                  (case d_source bd of None \<Rightarrow> MANUAL | Some s \<Rightarrow> s) d1)"
    unfolding createSingleBooking_def Let_def assms(2,3) step_def fin_def
    using act ne by simp
  have cs: "(\<exists>u. r = Inr u) \<and> d_paymentStatus bd \<noteq> Some PAID
       \<and> \<not> (case d_advancePaid bd of None \<Rightarrow> False | Some a \<Rightarrow> jlt fin a)
       \<and> persistBooking bd (normalizeToMidnight (d_bookingDate bd)) slots
                  (calculatePrice court (length slots) (d_bookingDate bd)) fin
                  (case d_source bd of None \<Rightarrow> MANUAL | Some s \<Rightarrow> s) d1 = (Inr b, d')"
    using assms(1) unfolding unf step_eq
    by (cases r) (auto split: if_splits)
  then obtain u where r: "r = Inr u" and np: "d_paymentStatus bd \<noteq> Some PAID"
    and adv: "\<not> (case d_advancePaid bd of None \<Rightarrow> False | Some a \<Rightarrow> jlt fin a)"
    and per: "persistBooking bd (normalizeToMidnight (d_bookingDate bd)) slots
                  (calculatePrice court (length slots) (d_bookingDate bd)) fin
                  (case d_source bd of None \<Rightarrow> MANUAL | Some s \<Rightarrow> s) d1 = (Inr b, d')"
    by blast
  have keep: "db_bookings d1 = db_bookings d \<and> db_payments d1 = db_payments d
         \<and> db_nextId d1 = db_nextId d"
    using step_eq r availabilityStep_Inr unfolding step_def by (auto split: if_splits)
  have booked: "\<forall>r \<in> set (db_slots d). s_status r = BOOKED \<longrightarrow> r \<in> set (db_slots d1)"
    using step_eq r unfolding step_def
    by (auto simp: availabilityStep_def split: if_splits sum.splits)
  have adv': "case d_advancePaid bd of None \<Rightarrow> True | Some a \<Rightarrow> \<not> jlt fin a"
    using adv by (cases "d_advancePaid bd") auto
  show ?thesis
    using np adv' keep booked per unfolding fin_def by blast
qed

section \<open>C3: the final amount of a created booking\<close>



text \<open>
  The final amount is not always the exact value of max(0, ceil(base * (1 - value /
  100))). With the base 500 and the percentage 0.6, which the code receives as the
  double 5404319552844595 / 2^53, the code stores 497: the product 500 * value rounds
  to 300 and the quotient to 3. The exact formula at that number is a little above
  497, so its ceiling is 498. With the percentage 64.6 the code stores 178, while the
  exact formula at the decimal 64.6 is 177.
\<close>

theorem finalAmount_rounding_counterexample:
  "fl (3 / 5) = Fin (5404319552844595 / 9007199254740992)
   \<and> b_baseAmount (projr (fst (createSingleBooking
        (exampleData\<lparr>d_endTime := ''06:15'', d_discountValue := Some (fl (3 / 5)),
                      d_advancePaid := None\<rparr>)
        (exampleDb\<lparr>db_courts := [exampleCourt\<lparr>c_weekdayPrice := Fin 2000\<rparr>]\<rparr>)))) = Fin 500
   \<and> b_finalAmount (projr (fst (createSingleBooking
        (exampleData\<lparr>d_endTime := ''06:15'', d_discountValue := Some (fl (3 / 5)),
                      d_advancePaid := None\<rparr>)
        (exampleDb\<lparr>db_courts := [exampleCourt\<lparr>c_weekdayPrice := Fin 2000\<rparr>]\<rparr>)))) = Fin 497
   \<and> max 0 \<lceil>500 * (1 - (5404319552844595 / 9007199254740992) / 100) :: rat\<rceil> = 498
   \<and> b_finalAmount (projr (fst (createSingleBooking
        (exampleData\<lparr>d_endTime := ''06:15'', d_discountValue := Some (fl (323 / 5)),
                      d_advancePaid := None\<rparr>)
        (exampleDb\<lparr>db_courts := [exampleCourt\<lparr>c_weekdayPrice := Fin 2000\<rparr>]\<rparr>)))) = Fin 178
   \<and> max 0 \<lceil>500 * (1 - (323 / 5) / 100) :: rat\<rceil> = 177"
  by code_simp

section \<open>C6: the fully-paid override\<close>

text \<open>
  Claim C6 at a concrete request. With \<^verbatim>\<open>paymentStatus: 'PAID'\<close> the call does not
  succeed with the advance forced to the final amount: the statement
  \<^verbatim>\<open>advancePaid = finalAmount\<close> assigns a \<^verbatim>\<open>const\<close> binding, the call ends in a
  TypeError, and no booking, slot or payment is written. The request is the example
  request (advance 100, final amount 200) with the override added.
\<close>

theorem paid_override_fails:
  "fst (createSingleBooking (exampleData\<lparr>d_paymentStatus := Some PAID\<rparr>) exampleDb)
     = Inl AssignmentToConstant
   \<and> db_bookings (snd (createSingleBooking (exampleData\<lparr>d_paymentStatus := Some PAID\<rparr>) exampleDb)) = []
   \<and> db_payments (snd (createSingleBooking (exampleData\<lparr>d_paymentStatus := Some PAID\<rparr>) exampleDb)) = []"
  by code_simp

text \<open>The same for every request and database: with the override no call succeeds.\<close>

lemma paid_override_never_succeeds:
  assumes "d_paymentStatus bd = Some PAID"
  shows "fst (createSingleBooking bd d) \<noteq> Inr b"
proof
  assume "fst (createSingleBooking bd d) = Inr b"
  then have run: "createSingleBooking bd d = (Inr b, snd (createSingleBooking bd d))"
    by (simp add: prod_eq_iff)
  obtain court where court: "find (\<lambda>c. c_id c = d_courtId bd) (db_courts d) = Some court"
    using createSingleBooking_court [OF run] by blast
  obtain slots where slots: "generateSlots (d_startTime bd) (d_endTime bd) = Inr slots"
    using createSingleBooking_slots [OF run] by blast
  show False using createSingleBooking_persist [OF run court slots] assms by simp
qed

text \<open>
  Without the override the advance check is exact: a call fails with 'Advance cannot
  be more than final amount' only when the supplied advance is strictly greater than
  the final amount, and no call succeeds with such an advance.
\<close>

lemma advance_error_only_when_greater:
  assumes "createSingleBooking bd d = (Inl AdvanceMoreThanFinal, d')"
  shows "\<exists>court slots a.
           find (\<lambda>c. c_id c = d_courtId bd) (db_courts d) = Some court
         \<and> generateSlots (d_startTime bd) (d_endTime bd) = Inr slots
         \<and> d_advancePaid bd = Some a
         \<and> jlt (jmax (Fin 0) (jceil (applyDiscount
                 (calculatePrice court (length slots) (d_bookingDate bd))
                 (d_discountType bd) (d_discountValue bd)))) a"
  using assms
  by (auto simp: createSingleBooking_def Let_def
           split: option.splits if_splits sum.splits prod.splits
           dest: generateSlots_Inl availabilityStep_err persistBooking_err)

lemma success_implies_advance_within_total:
  assumes "createSingleBooking bd d = (Inr b, d')" and "d_advancePaid bd = Some a"
  shows "\<not> jlt (b_finalAmount b) a"
proof -
  obtain court where court: "find (\<lambda>c. c_id c = d_courtId bd) (db_courts d) = Some court"
    using createSingleBooking_court [OF assms(1)] by blast
  obtain slots where slots: "generateSlots (d_startTime bd) (d_endTime bd) = Inr slots"
    using createSingleBooking_slots [OF assms(1)] by blast
  define fin where "fin = jmax (Fin 0) (jceil (applyDiscount
      (calculatePrice court (length slots) (d_bookingDate bd))
      (d_discountType bd) (d_discountValue bd)))"
  obtain d1 where adv: "case d_advancePaid bd of None \<Rightarrow> True | Some a \<Rightarrow> \<not> jlt fin a"
    and per: "persistBooking bd (normalizeToMidnight (d_bookingDate bd)) slots
                (calculatePrice court (length slots) (d_bookingDate bd)) fin
                (case d_source bd of None \<Rightarrow> MANUAL | Some s \<Rightarrow> s) d1 = (Inr b, d')"
    using createSingleBooking_persist [OF assms(1) court slots] unfolding fin_def by blast
  show ?thesis using persistBooking_Inr [OF per] adv assms(2) by simp
qed

section \<open>C8: the payment row of a created booking\<close>




section \<open>C5: the tags of a booking made for a recurring rule\<close>

text \<open>
  Claim C5 at the example rule (Mondays and Wednesdays, 2024-01-01 to 2024-01-11, on
  an empty calendar). \<^verbatim>\<open>processRecurringBooking\<close> passes the tags under the keys
  \<^verbatim>\<open>bookingSource\<close> and \<^verbatim>\<open>recurringRuleId\<close>, while \<^verbatim>\<open>createSingleBooking\<close> reads
  \<^verbatim>\<open>source\<close> and \<^verbatim>\<open>recurringId\<close>: all four bookings are stored with the defaults,
  source MANUAL and no rule reference.
\<close>

theorem recurring_bookings_stored_as_manual:
  "success (projr (fst (processRecurringBooking 0 7 exampleDb))) = 4
   \<and> map b_source (db_bookings (snd (processRecurringBooking 0 7 exampleDb)))
       = [MANUAL, MANUAL, MANUAL, MANUAL]
   \<and> map b_recurringId (db_bookings (snd (processRecurringBooking 0 7 exampleDb)))
       = [None, None, None, None]"
  by code_simp

text \<open>The same for every rule, date and database.\<close>

lemma recurring_booking_tags:
  assumes "createSingleBooking (ruleBookingData rule date) d = (Inr b, d')"
  shows "b_source b = MANUAL \<and> b_recurringId b = None"
proof -
  let ?bd = "ruleBookingData rule date"
  obtain court where court: "find (\<lambda>c. c_id c = d_courtId ?bd) (db_courts d) = Some court"
    using createSingleBooking_court [OF assms] by blast
  obtain slots where slots: "generateSlots (d_startTime ?bd) (d_endTime ?bd) = Inr slots"
    using createSingleBooking_slots [OF assms] by blast
  obtain d1 base fin where
    "persistBooking ?bd (normalizeToMidnight (d_bookingDate ?bd)) slots base fin
       (case d_source ?bd of None \<Rightarrow> MANUAL | Some s \<Rightarrow> s) d1 = (Inr b, d')"
    using createSingleBooking_persist [OF assms court slots] by blast
  from persistBooking_Inr [OF this] show ?thesis
    by (simp add: ruleBookingData_def)
qed

section \<open>C4: the report of the recurring processor\<close>












section \<open>C9: the result of the availability check\<close>

lemma setInOrder_set: "set (setInOrder xs) = set xs"
  by (simp add: setInOrder_def)

lemma setInOrder_distinct: "distinct (setInOrder xs)"
  by (simp add: setInOrder_def)

lemma conflictQuery_iff:
  "conflictQuery courtId nd slots excl r \<longleftrightarrow>
     s_status r = BOOKED \<and> s_courtId r = courtId \<and> s_bookingDate r = nd
     \<and> s_slotTime r \<in> set slots \<and> (\<forall>b. excl = Some b \<longrightarrow> s_bookingId r \<noteq> b)"
  by (cases excl) (auto simp: conflictQuery_def)

text \<open>
  Claim C9. Let the range generate the labels \<open>slots\<close>. \<^verbatim>\<open>checkSlotAvailability\<close>
  returns a result; it is \<open>available\<close> exactly when no BookingSlot row is BOOKED for the
  court, the date normalized to midnight and one of the labels, rows of the excluded
  booking (when one is given) not counted. An available result carries no conflicts; an
  unavailable one carries the labels of exactly the matching rows, ascending and without
  duplicates. The result depends on the database through the BookingSlot collection
  only, so calls on states with the same rows agree; the check itself writes nothing.
\<close>

theorem checkSlotAvailability_result:
  assumes "generateSlots startTime endTime = Inr slots"
  shows "\<exists>res. checkSlotAvailability courtId bookingDate startTime endTime excl d = Inr res
           \<and> (available res \<longleftrightarrow>
                \<not> (\<exists>r \<in> set (db_slots d).
                      s_status r = BOOKED \<and> s_courtId r = courtId
                      \<and> s_bookingDate r = normalizeToMidnight bookingDate
                      \<and> s_slotTime r \<in> set slots
                      \<and> (\<forall>b. excl = Some b \<longrightarrow> s_bookingId r \<noteq> b)))
           \<and> (available res \<longrightarrow> conflicts res = [])
           \<and> (\<not> available res \<longrightarrow>
                sorted (conflicts res) \<and> distinct (conflicts res)
                \<and> set (conflicts res) =
                    {s_slotTime r | r. r \<in> set (db_slots d)
                       \<and> s_status r = BOOKED \<and> s_courtId r = courtId
                       \<and> s_bookingDate r = normalizeToMidnight bookingDate
                       \<and> s_slotTime r \<in> set slots
                       \<and> (\<forall>b. excl = Some b \<longrightarrow> s_bookingId r \<noteq> b)})
           \<and> (\<forall>d2. db_slots d2 = db_slots d \<longrightarrow>
                 checkSlotAvailability courtId bookingDate startTime endTime excl d2 = Inr res)"
proof -
  let ?nd = "normalizeToMidnight bookingDate"
  let ?Q = "conflictQuery courtId ?nd slots excl"
  define found where "found = filter ?Q (db_slots d)"
  define res where "res =
      (if length found > 0
       then \<lparr>available = False, conflicts = sort (setInOrder (map s_slotTime found))\<rparr>
       else \<lparr>available = True, conflicts = []\<rparr>)"
  have run: "checkSlotAvailability courtId bookingDate startTime endTime excl d2 = Inr res"
    if "db_slots d2 = db_slots d" for d2
    using assms that by (simp add: checkSlotAvailability_def Let_def res_def found_def)
  have found_set: "set found = {r \<in> set (db_slots d). ?Q r}"
    by (auto simp: found_def)
  have av: "available res \<longleftrightarrow> found = []"
    by (simp add: res_def)
  have av_iff: "available res \<longleftrightarrow>
      \<not> (\<exists>r \<in> set (db_slots d).
            s_status r = BOOKED \<and> s_courtId r = courtId \<and> s_bookingDate r = ?nd
            \<and> s_slotTime r \<in> set slots \<and> (\<forall>b. excl = Some b \<longrightarrow> s_bookingId r \<noteq> b))"
  proof -
    have "found = [] \<longleftrightarrow> \<not> (\<exists>r \<in> set (db_slots d). ?Q r)"
      by (auto simp: found_def filter_empty_conv)
    then show ?thesis unfolding av conflictQuery_iff .
  qed
  have empty: "available res \<longrightarrow> conflicts res = []"
    by (simp add: res_def)
  have unav: "sorted (conflicts res) \<and> distinct (conflicts res)
      \<and> set (conflicts res) =
          {s_slotTime r | r. r \<in> set (db_slots d)
             \<and> s_status r = BOOKED \<and> s_courtId r = courtId \<and> s_bookingDate r = ?nd
             \<and> s_slotTime r \<in> set slots \<and> (\<forall>b. excl = Some b \<longrightarrow> s_bookingId r \<noteq> b)}"
    if "\<not> available res"
  proof -
    have c: "conflicts res = sort (setInOrder (map s_slotTime found))"
      using that by (simp add: res_def split: if_splits)
    have "set (conflicts res) = s_slotTime ` set found"
      by (simp add: c setInOrder_set)
    also have "\<dots> = {s_slotTime r | r. r \<in> set (db_slots d) \<and> ?Q r}"
      unfolding found_set by auto
    finally have "set (conflicts res) = {s_slotTime r | r. r \<in> set (db_slots d) \<and> ?Q r}" .
    then have "set (conflicts res) =
          {s_slotTime r | r. r \<in> set (db_slots d)
             \<and> s_status r = BOOKED \<and> s_courtId r = courtId \<and> s_bookingDate r = ?nd
             \<and> s_slotTime r \<in> set slots \<and> (\<forall>b. excl = Some b \<longrightarrow> s_bookingId r \<noteq> b)}"
      unfolding conflictQuery_iff .
    moreover have "sorted (conflicts res)" by (simp add: c)
    moreover have "distinct (conflicts res)" by (simp add: c setInOrder_distinct)
    ultimately show ?thesis by blast
  qed
  show ?thesis
    using run [OF refl] run av_iff empty unav by blast
qed

text \<open>
  The theorem on the calendar left by the example booking (06:00 to 07:00 on
  2024-01-01): the range 06:30 to 07:30 of that day, asked at any time of the day, is
  unavailable with the conflicts 06:30 and 06:45; asked a second time the answer is the
  same.
\<close>

theorem checkSlotAvailability_result_witness:
  "generateSlots ''06:30'' ''07:30'' = Inr [''06:30'', ''06:45'', ''07:00'', ''07:15'']
   \<and> checkSlotAvailability 1 (JSDate 19723 50000000) ''06:30'' ''07:30'' None
        (snd (createSingleBooking exampleData exampleDb))
       = Inr \<lparr>available = False, conflicts = [''06:30'', ''06:45'']\<rparr>
   \<and> sorted [''06:30'', ''06:45'']"
proof -
  let ?d = "snd (createSingleBooking exampleData exampleDb)"
  have g: "generateSlots ''06:30'' ''07:30'' = Inr [''06:30'', ''06:45'', ''07:00'', ''07:15'']"
    by code_simp
  have c: "checkSlotAvailability 1 (JSDate 19723 50000000) ''06:30'' ''07:30'' None ?d
       = Inr \<lparr>available = False, conflicts = [''06:30'', ''06:45'']\<rparr>"
    by code_simp
  obtain res where
    "checkSlotAvailability 1 (JSDate 19723 50000000) ''06:30'' ''07:30'' None ?d = Inr res"
    "\<not> available res \<longrightarrow> sorted (conflicts res)"
    using checkSlotAvailability_result [OF g] by blast
  then have "sorted [''06:30'', ''06:45'']" using c by auto
  then show ?thesis using g c by simp
qed

section \<open>C7: the dates of a recurrence rule\<close>

lemma DAYS_MAP_eq: "DAYS_MAP a = DAYS_MAP b \<longleftrightarrow> a = b"
  by (cases a; cases b) simp_all

lemma getDay_included:
  "getDay date \<in> set (map DAYS_MAP days) \<longleftrightarrow> weekdayOf (dayOf date) \<in> set days"
  unfolding getDay_weekdayOf by (auto simp: DAYS_MAP_eq)

lemma getDate_dayOfMonth: "getDate date = dayOfMonth (dayOf date)"
  by (simp add: getDate_def dayOfMonth_def split: prod.splits)

lemma setMonthPlus3_plusMonths: "dayOf (setMonthPlus3 date) = plusMonths 3 (dayOf date)"
proof -
  obtain y m d where c: "civil_from_days (dayOf date) = (y, m, d)"
    by (cases "civil_from_days (dayOf date)") auto
  have "12 * y + (m - 1) + 3 = (m - 1 + 3) + y * 12" by simp
  then have "(12 * y + (m - 1) + 3) div 12 = y + (m - 1 + 3) div 12"
    "(12 * y + (m - 1) + 3) mod 12 = (m - 1 + 3) mod 12"
    by (simp_all only: div_mult_self1 mod_mult_self1)
  then show ?thesis
    by (simp add: setMonthPlus3_def plusMonths_def c Let_def)
qed

lemma dateLoop_eq:
  "msOf currentDate = 0 \<Longrightarrow> msOf endDate = 0 \<Longrightarrow>
   idx = map_option (map DAYS_MAP) (r_daysOfWeek rule) \<Longrightarrow>
   (r_recurrenceType rule = WEEKLY \<longrightarrow> r_daysOfWeek rule \<noteq> None) \<Longrightarrow>
   dateLoop rule idx currentDate endDate dates =
     Inr (dates @ map (\<lambda>n. JSDate n 0)
                    (filter (dayIncluded rule) [dayOf currentDate .. dayOf endDate]))"
proof (induction rule idx currentDate endDate dates rule: dateLoop.induct)
  case (1 rule idx currentDate endDate dates)
  show ?case
  proof (cases "date_le currentDate endDate")
    case False
    then have "dayOf endDate < dayOf currentDate"
      using "1.prems" by (auto simp: date_le_def)
    then show ?thesis
      using False by (simp add: dateLoop.simps [of rule idx currentDate endDate dates])
  next
    case True
    then have le: "dayOf currentDate \<le> dayOf endDate"
      by (auto simp: date_le_def)
    have upto: "[dayOf currentDate .. dayOf endDate] =
        dayOf currentDate # [dayOf (addOneDay currentDate) .. dayOf endDate]"
      using le by (simp add: upto_rec1 addOneDay_def)
    have ms: "msOf (addOneDay currentDate) = 0"
      using "1.prems" by (simp add: addOneDay_def)
    have norm: "normalizeToMidnight currentDate = JSDate (dayOf currentDate) 0"
      by (simp add: normalizeToMidnight_def)
    show ?thesis
    proof (cases "r_recurrenceType rule")
      case WEEKLY
      then obtain days where days: "r_daysOfWeek rule = Some days"
        using "1.prems" by auto
      have idx: "idx = Some (map DAYS_MAP days)"
        using "1.prems"(3) by (simp add: days)
      have inc: "dayIncluded rule (dayOf currentDate) \<longleftrightarrow>
          getDay currentDate \<in> set (map DAYS_MAP days)"
        unfolding getDay_included by (simp add: dayIncluded_def WEEKLY days)
      have step: "dateLoop rule idx currentDate endDate dates =
          dateLoop rule idx (addOneDay currentDate) endDate
            (if getDay currentDate \<in> set (map DAYS_MAP days)
             then dates @ [normalizeToMidnight currentDate] else dates)"
        unfolding dateLoop.simps [of rule idx currentDate endDate dates]
        using True by (simp only: WEEKLY idx if_True recurrenceType.case option.case)
      show ?thesis
        unfolding step
        using "1.IH"(1) [OF True WEEKLY idx ms "1.prems"(2,3,4)]
        by (simp add: upto inc norm)
    next
      case MONTHLY
      have inc: "dayIncluded rule (dayOf currentDate) \<longleftrightarrow>
          Some (getDate currentDate) = r_fixedDate rule"
        unfolding getDate_dayOfMonth by (auto simp: dayIncluded_def MONTHLY)
      have step: "dateLoop rule idx currentDate endDate dates =
          dateLoop rule idx (addOneDay currentDate) endDate
            (if Some (getDate currentDate) = r_fixedDate rule
             then dates @ [normalizeToMidnight currentDate] else dates)"
        unfolding dateLoop.simps [of rule idx currentDate endDate dates]
        using True by (simp only: MONTHLY if_True recurrenceType.case)
      show ?thesis
        unfolding step
        using "1.IH"(2) [OF True MONTHLY ms "1.prems"(2,3,4)]
        by (simp add: upto inc norm)
    qed
  qed
qed

lemma generateDates_window:
  "generateDates rule =
     dateLoop rule (map_option (map DAYS_MAP) (r_daysOfWeek rule))
       (JSDate (dayOf (r_startDate rule)) 0) (JSDate (windowEnd rule) 0) []"
proof (cases "r_endDate rule")
  case None
  have "dayOf (setMonthPlus3 (JSDate (dayOf (r_startDate rule)) 0))
      = plusMonths 3 (dayOf (r_startDate rule))"
    unfolding setMonthPlus3_plusMonths by simp
  then show ?thesis
    by (simp add: generateDates_def Let_def windowEnd_def normalizeToMidnight_def None)
next
  case (Some e)
  then show ?thesis
    by (simp add: generateDates_def Let_def windowEnd_def normalizeToMidnight_def)
qed

lemma ascending_days:
  "sorted_wrt date_lt (map (\<lambda>n. JSDate n 0) (filter P [a..b]))"
proof -
  have "sorted_wrt (<) (filter P [a..b])"
    by (rule sorted_wrt_filter) simp
  then show ?thesis
    by (simp add: sorted_wrt_map date_lt_def)
qed

text \<open>
  Claim C7, for a rule that has a day list when it is WEEKLY (a stored rule always
  has one). \<^verbatim>\<open>generateDates\<close> returns the days from the rule's start date to its end
  date inclusive, the end being the day three months after the start date when the
  rule has none, that the rule includes: a WEEKLY rule the days whose weekday is in its
  day set, a MONTHLY rule the days whose day of the month is its fixed day. The dates
  come in strictly ascending order, each at midnight; the sequence is a finite list,
  empty when no day of the window is included.
\<close>

theorem generateDates_enumerates:
  assumes "r_recurrenceType rule = WEEKLY \<longrightarrow> r_daysOfWeek rule \<noteq> None"
  shows "\<exists>dates. generateDates rule = Inr dates
           \<and> dates = map (\<lambda>n. JSDate n 0)
                        (filter (dayIncluded rule)
                           [dayOf (r_startDate rule) .. windowEnd rule])
           \<and> (\<forall>n. JSDate n 0 \<in> set dates \<longleftrightarrow>
                  dayOf (r_startDate rule) \<le> n \<and> n \<le> windowEnd rule
                  \<and> dayIncluded rule n)
           \<and> sorted_wrt date_lt dates
           \<and> (\<forall>x \<in> set dates. normalizeToMidnight x = x)"
proof -
  define dates where "dates = map (\<lambda>n. JSDate n 0)
      (filter (dayIncluded rule) [dayOf (r_startDate rule) .. windowEnd rule])"
  have run: "generateDates rule = Inr dates"
    unfolding generateDates_window dates_def
    using dateLoop_eq [of "JSDate (dayOf (r_startDate rule)) 0"
        "JSDate (windowEnd rule) 0" _ rule "[]", OF _ _ refl] assms
    by simp
  have mem: "JSDate n 0 \<in> set dates \<longleftrightarrow>
      dayOf (r_startDate rule) \<le> n \<and> n \<le> windowEnd rule \<and> dayIncluded rule n" for n
    by (auto simp: dates_def)
  have asc: "sorted_wrt date_lt dates"
    unfolding dates_def by (rule ascending_days)
  have mid: "\<forall>x \<in> set dates. normalizeToMidnight x = x"
    by (auto simp: dates_def normalizeToMidnight_def)
  show ?thesis using run mem asc mid dates_def by blast
qed

text \<open>
  The theorem at four rules. The example rule (Mondays and Wednesdays from Monday
  2024-01-01, day 19723, to Thursday 2024-01-11) gives the 1st, 3rd, 8th and 10th of
  January. A MONTHLY rule with fixed day 1 that starts on 2023-11-30 (day 19691) and
  has no end date runs to 2024-03-01 (day 19783: February has no 30th, so the day
  three months later runs over into March) and gives the first of December, January,
  February and March, the last day of the window included. A WEEKLY rule for Thursdays
  that starts on Thursday 2024-02-29 (day 19782) and has no end date runs to 2024-05-29
  and gives thirteen Thursdays, the first 2024-02-29 and the last 2024-05-23. The
  spec's MONTHLY rule with fixed day 31 on the window 2024-04-10 to 2024-05-10, in
  which no 31st occurs, gives the empty sequence.
\<close>

theorem generateDates_enumerates_witness:
  "r_daysOfWeek exampleRule \<noteq> None
   \<and> generateDates exampleRule
       = Inr [JSDate 19723 0, JSDate 19725 0, JSDate 19730 0, JSDate 19732 0]
   \<and> sorted_wrt date_lt [JSDate 19723 0, JSDate 19725 0, JSDate 19730 0, JSDate 19732 0]
   \<and> windowEnd (exampleRule\<lparr>r_recurrenceType := MONTHLY, r_fixedDate := Some 1,
        r_startDate := JSDate 19691 0, r_endDate := None\<rparr>) = 19783
   \<and> generateDates (exampleRule\<lparr>r_recurrenceType := MONTHLY, r_fixedDate := Some 1,
        r_startDate := JSDate 19691 0, r_endDate := None\<rparr>)
       = Inr [JSDate 19692 0, JSDate 19723 0, JSDate 19754 0, JSDate 19783 0]
   \<and> map dayOf (projr (generateDates (exampleRule\<lparr>r_daysOfWeek := Some [THU],
        r_startDate := JSDate 19782 0, r_endDate := None\<rparr>)))
       = [19782, 19789, 19796, 19803, 19810, 19817, 19824, 19831, 19838, 19845, 19852,
          19859, 19866]
   \<and> generateDates (exampleRule\<lparr>r_recurrenceType := MONTHLY, r_fixedDate := Some 31,
        r_startDate := JSDate 19823 0, r_endDate := Some (JSDate 19853 0)\<rparr>) = Inr []
   \<and> civil_from_days 19691 = (2023, 11, 30) \<and> civil_from_days 19783 = (2024, 3, 1)
   \<and> civil_from_days 19782 = (2024, 2, 29) \<and> civil_from_days 19872 = (2024, 5, 29)
   \<and> civil_from_days 19823 = (2024, 4, 10) \<and> civil_from_days 19853 = (2024, 5, 10)"
proof -
  let ?m1 = "exampleRule\<lparr>r_recurrenceType := MONTHLY, r_fixedDate := Some 1,
        r_startDate := JSDate 19691 0, r_endDate := None\<rparr>"
  have h: "r_recurrenceType exampleRule = WEEKLY \<longrightarrow> r_daysOfWeek exampleRule \<noteq> None"
    by (simp add: exampleRule_def)
  have h1: "r_recurrenceType ?m1 = WEEKLY \<longrightarrow> r_daysOfWeek ?m1 \<noteq> None"
    by simp
  have g: "generateDates exampleRule
       = Inr [JSDate 19723 0, JSDate 19725 0, JSDate 19730 0, JSDate 19732 0]"
    by code_simp
  have w: "windowEnd ?m1 = 19783" by code_simp
  have inc: "filter (dayIncluded ?m1) [19691 .. 19783] = [19692, 19723, 19754, 19783]"
    by code_simp
  have t: "map dayOf (projr (generateDates (exampleRule\<lparr>r_daysOfWeek := Some [THU],
        r_startDate := JSDate 19782 0, r_endDate := None\<rparr>)))
       = [19782, 19789, 19796, 19803, 19810, 19817, 19824, 19831, 19838, 19845, 19852,
          19859, 19866]"
    by code_simp
  have m: "generateDates (exampleRule\<lparr>r_recurrenceType := MONTHLY, r_fixedDate := Some 31,
        r_startDate := JSDate 19823 0, r_endDate := Some (JSDate 19853 0)\<rparr>) = Inr []"
    by code_simp
  have c: "civil_from_days 19691 = (2023, 11, 30)" "civil_from_days 19783 = (2024, 3, 1)"
    "civil_from_days 19782 = (2024, 2, 29)" "civil_from_days 19872 = (2024, 5, 29)"
    "civil_from_days 19823 = (2024, 4, 10)" "civil_from_days 19853 = (2024, 5, 10)"
    by code_simp+
  obtain dates where "generateDates exampleRule = Inr dates" "sorted_wrt date_lt dates"
    using generateDates_enumerates [OF h] by blast
  then have s: "sorted_wrt date_lt
      [JSDate 19723 0, JSDate 19725 0, JSDate 19730 0, JSDate 19732 0]"
    using g by simp
  obtain dates1 where "generateDates ?m1 = Inr dates1"
    "dates1 = map (\<lambda>n. JSDate n 0)
       (filter (dayIncluded ?m1) [dayOf (r_startDate ?m1) .. windowEnd ?m1])"
    using generateDates_enumerates [OF h1] by blast
  then have g1: "generateDates ?m1
      = Inr [JSDate 19692 0, JSDate 19723 0, JSDate 19754 0, JSDate 19783 0]"
    unfolding w using inc by simp
  have d: "r_daysOfWeek exampleRule \<noteq> None" by (simp add: exampleRule_def)
  show ?thesis
    using d g s w g1 t m c by (intro conjI) assumption+
qed

section \<open>C1: at most one BOOKED row per court, date and slot\<close>

lemma bookedKeys_append: "bookedKeys (xs @ ys) = bookedKeys xs @ bookedKeys ys"
  by (simp add: bookedKeys_def)

lemma bookedKeys_Cons:
  "bookedKeys (r # rows) = (if s_status r = BOOKED then slotKey r # bookedKeys rows else bookedKeys rows)"
  by (simp add: bookedKeys_def)

lemma slotKey_status [simp]: "slotKey (r\<lparr>s_status := st\<rparr>) = slotKey r"
  by (simp add: slotKey_def)

lemma insertManySlots_unique:
  "distinct (bookedKeys rows) \<Longrightarrow> insertManySlots docs rows = (res, rows') \<Longrightarrow>
   distinct (bookedKeys rows')"
proof (induction docs arbitrary: rows)
  case Nil
  then show ?case by simp
next
  case (Cons doc docs)
  show ?case
  proof (cases "s_status doc = BOOKED \<and> slotKey doc \<in> set (bookedKeys rows)")
    case True
    then show ?thesis using Cons.prems by simp
  next
    case False
    then have run: "insertManySlots docs (rows @ [doc]) = (res, rows')"
      using Cons.prems(2) by (simp split: if_splits)
    have "distinct (bookedKeys (rows @ [doc]))"
      using False Cons.prems(1) by (auto simp: bookedKeys_append bookedKeys_Cons bookedKeys_def)
    then show ?thesis using Cons.IH run by blast
  qed
qed

lemma filter_unique:
  assumes "distinct (bookedKeys rows)"
  shows "distinct (bookedKeys (filter P rows))"
proof -
  have "filter (\<lambda>r. s_status r = BOOKED) (filter P rows) =
        filter P (filter (\<lambda>r. s_status r = BOOKED) rows)"
    by (simp add: conj_commute)
  then show ?thesis
    using assms unfolding bookedKeys_def by (simp only: distinct_map_filter)
qed

lemma updateManySlots_unique:
  "distinct (bookedKeys (seen @ todo)) \<Longrightarrow> updateManySlots match st seen todo = Inr rows \<Longrightarrow>
   distinct (bookedKeys rows)"
proof (induction todo arbitrary: seen)
  case Nil
  then show ?case by simp
next
  case (Cons r todo)
  show ?case
  proof (cases "match r")
    case False
    then have "updateManySlots match st (seen @ [r]) todo = Inr rows"
      using Cons.prems(2) by simp
    moreover have "distinct (bookedKeys ((seen @ [r]) @ todo))"
      using Cons.prems(1) by simp
    ultimately show ?thesis using Cons.IH by blast
  next
    case True
    show ?thesis
    proof (cases "st = BOOKED \<and> s_status r \<noteq> BOOKED \<and> slotKey r \<in> set (bookedKeys (seen @ todo))")
      case True
      then show ?thesis using Cons.prems(2) \<open>match r\<close> by simp
    next
      case False
      then have run: "updateManySlots match st (seen @ [r\<lparr>s_status := st\<rparr>]) todo = Inr rows"
        using Cons.prems(2) \<open>match r\<close> by (simp split: if_splits)
      have before: "bookedKeys (seen @ r # todo) =
          bookedKeys seen @ (if s_status r = BOOKED then [slotKey r] else []) @ bookedKeys todo"
        by (simp add: bookedKeys_append bookedKeys_Cons)
      have after: "bookedKeys ((seen @ [r\<lparr>s_status := st\<rparr>]) @ todo) =
          bookedKeys seen @ (if st = BOOKED then [slotKey r] else []) @ bookedKeys todo"
        by (simp add: bookedKeys_append bookedKeys_Cons)
      have "distinct (bookedKeys ((seen @ [r\<lparr>s_status := st\<rparr>]) @ todo))"
      proof (cases "st = BOOKED")
        case st: True
        show ?thesis
        proof (cases "s_status r = BOOKED")
          case True
          then show ?thesis using Cons.prems(1) st unfolding before after by simp
        next
          case nb: False
          then have "slotKey r \<notin> set (bookedKeys (seen @ todo))"
            using False st by simp
          then show ?thesis
            using Cons.prems(1) st nb unfolding before after
            by (simp add: bookedKeys_append)
        qed
      next
        case st: False
        have "distinct (bookedKeys seen @ bookedKeys todo)"
          using Cons.prems(1) unfolding before by (auto split: if_splits)
        then show ?thesis using st unfolding after by simp
      qed
      then show ?thesis using Cons.IH run by blast
    qed
  qed
qed

lemma availabilityStep_unique:
  "distinct (bookedKeys (db_slots d)) \<Longrightarrow> availabilityStep c nd s e slots d = (res, d1) \<Longrightarrow>
   distinct (bookedKeys (db_slots d1))"
  by (auto simp: availabilityStep_def filter_unique split: sum.splits if_splits)

lemma persistBooking_unique:
  assumes "distinct (bookedKeys (db_slots d))"
    and "persistBooking bd nd slots base fin src d = (res, d')"
  shows "distinct (bookedKeys (db_slots d'))"
proof -
  define docs where "docs = map (\<lambda>time. \<lparr>s_bookingId = db_nextId d,
                         s_courtId = d_courtId bd, s_bookingDate = nd,
                         s_slotTime = time, s_status = BOOKED\<rparr>) slots"
  obtain r rows where ins: "insertManySlots docs (db_slots d) = (r, rows)"
    by (cases "insertManySlots docs (db_slots d)") auto
  have "db_slots d' = rows"
    using assms(2) ins by (cases r) (auto simp: persistBooking_def Let_def docs_def)
  then show ?thesis using insertManySlots_unique [OF assms(1) ins] by simp
qed

lemma createSingleBooking_unique:
  assumes "distinct (bookedKeys (db_slots d))"
    and "createSingleBooking bd d = (res, d')"
  shows "distinct (bookedKeys (db_slots d'))"
  using assms
  by (auto simp: createSingleBooking_def Let_def
           split: option.splits if_splits sum.splits prod.splits
           dest: availabilityStep_unique persistBooking_unique)

lemma bookingLoop_unique:
  "distinct (bookedKeys (db_slots d)) \<Longrightarrow> bookingLoop utcOffset rule dates res d = (res', d') \<Longrightarrow>
   distinct (bookedKeys (db_slots d'))"
proof (induction dates arbitrary: res d)
  case Nil
  then show ?case by simp
next
  case (Cons date dates)
  obtain r d1 where step: "createSingleBooking (ruleBookingData rule date) d = (r, d1)"
    by (cases "createSingleBooking (ruleBookingData rule date) d") auto
  have d1: "distinct (bookedKeys (db_slots d1))"
    using createSingleBooking_unique [OF Cons.prems(1) step] .
  show ?case
    using Cons.prems(2) step Cons.IH [OF d1] by (cases r) auto
qed

lemma processRecurringBooking_unique:
  assumes "distinct (bookedKeys (db_slots d))"
    and "processRecurringBooking utcOffset ruleId d = (res, d')"
  shows "distinct (bookedKeys (db_slots d'))"
  using assms
  by (auto simp: processRecurringBooking_def
           split: option.splits if_splits sum.splits prod.splits
           dest: bookingLoop_unique)

lemma updateBookingStatus_unique:
  assumes "distinct (bookedKeys (db_slots d))"
    and "updateBookingStatus bookingId st d = (res, d')"
  shows "distinct (bookedKeys (db_slots d'))"
proof -
  have upd: "updateManySlots match st' [] (db_slots d) = Inr rows \<Longrightarrow>
      distinct (bookedKeys rows)" for match st' rows
    using updateManySlots_unique [of "[]" "db_slots d"] assms(1) by simp
  show ?thesis
    using assms
    by (auto simp: updateBookingStatus_def Let_def
             split: option.splits if_splits sum.splits dest: upd)
qed

lemma deleteBooking_unique:
  assumes "distinct (bookedKeys (db_slots d))"
    and "deleteBooking bookingId d = (res, d')"
  shows "distinct (bookedKeys (db_slots d'))"
  using assms by (auto simp: deleteBooking_def filter_unique split: option.splits)

lemma expirySweep_unique:
  assumes "distinct (bookedKeys (db_slots d))"
  shows "distinct (bookedKeys (db_slots (expirySweep now d)))"
proof -
  have upd: "updateManySlots match st' [] (db_slots d) = Inr rows \<Longrightarrow>
      distinct (bookedKeys rows)" for match st' rows
    using updateManySlots_unique [of "[]" "db_slots d"] assms(1) by simp
  show ?thesis
    using assms by (auto simp: expirySweep_def Let_def split: sum.splits dest: upd)
qed

lemma applyOperation_unique:
  assumes "distinct (bookedKeys (db_slots d))"
  shows "distinct (bookedKeys (db_slots (applyOperation operation d)))"
proof (cases operation)
  case (CreateSingleBooking bd)
  then show ?thesis
    using createSingleBooking_unique [OF assms, of bd] by (simp add: prod_eq_iff)
next
  case (UpdateBookingStatus bookingId st)
  then show ?thesis
    using updateBookingStatus_unique [OF assms, of bookingId st] by (simp add: prod_eq_iff)
next
  case (DeleteBooking bookingId)
  then show ?thesis
    using deleteBooking_unique [OF assms, of bookingId] by (simp add: prod_eq_iff)
next
  case (ExpirySweep now)
  then show ?thesis using expirySweep_unique [OF assms] by simp
next
  case (ProcessRecurringBooking utcOffset ruleId)
  then show ?thesis
    using processRecurringBooking_unique [OF assms, of utcOffset ruleId] by (simp add: prod_eq_iff)
qed

lemma runOperations_unique:
  "distinct (bookedKeys (db_slots d)) \<Longrightarrow>
   distinct (bookedKeys (db_slots (runOperations operations d)))"
  by (induction operations arbitrary: d) (auto intro: applyOperation_unique)

lemma distinct_count_le1:
  "distinct (map f xs) \<Longrightarrow> length (filter (\<lambda>x. f x = k) xs) \<le> 1"
proof (induction xs)
  case Nil
  then show ?case by simp
next
  case (Cons a xs)
  show ?case
  proof (cases "f a = k")
    case True
    have "f a \<notin> f ` set xs" using Cons.prems by simp
    then have "\<forall>x \<in> set xs. f x \<noteq> k" using True by (metis imageI)
    then have "filter (\<lambda>x. f x = k) xs = []" by (simp add: filter_empty_conv)
    then show ?thesis using True by simp
  next
    case False
    then show ?thesis using Cons by simp
  qed
qed

lemma unique_count:
  assumes "distinct (bookedKeys rows)"
  shows "length (filter (\<lambda>r. s_courtId r = c \<and> s_bookingDate r = dt \<and> s_slotTime r = t
                           \<and> s_status r = BOOKED) rows) \<le> 1"
proof -
  have "filter (\<lambda>r. s_courtId r = c \<and> s_bookingDate r = dt \<and> s_slotTime r = t
                           \<and> s_status r = BOOKED) rows =
        filter (\<lambda>r. slotKey r = (c, dt, t)) (filter (\<lambda>r. s_status r = BOOKED) rows)"
    by (auto simp: slotKey_def intro: filter_cong)
  then show ?thesis
    using distinct_count_le1 [of slotKey "filter (\<lambda>r. s_status r = BOOKED) rows" "(c, dt, t)"]
      assms
    by (simp add: bookedKeys_def)
qed

lemma count_le1_distinct:
  "(\<And>k. length (filter (\<lambda>x. f x = k) xs) \<le> 1) \<Longrightarrow> distinct (map f xs)"
proof (induction xs)
  case Nil
  then show ?case by simp
next
  case (Cons a xs)
  have tail: "length (filter (\<lambda>x. f x = k) xs) \<le> 1" for k
    using Cons.prems [of k] by (simp split: if_splits)
  have "f a \<notin> f ` set xs"
  proof
    assume "f a \<in> f ` set xs"
    then obtain x where "x \<in> set xs" "f x = f a" by auto
    then have "filter (\<lambda>x. f x = f a) xs \<noteq> []" by (auto simp: filter_empty_conv)
    then have "0 < length (filter (\<lambda>x. f x = f a) xs)" by simp
    then show False using Cons.prems [of "f a"] by simp
  qed
  then show ?case using Cons.IH tail by simp
qed

lemma count_unique:
  assumes "\<And>c dt t. length (filter (\<lambda>r. s_courtId r = c \<and> s_bookingDate r = dt
             \<and> s_slotTime r = t \<and> s_status r = BOOKED) rows) \<le> 1"
  shows "distinct (bookedKeys rows)"
  unfolding bookedKeys_def
proof (rule count_le1_distinct)
  fix k :: "objectId \<times> jsdate \<times> string"
  obtain c dt t where k: "k = (c, dt, t)" by (cases k) auto
  have "filter (\<lambda>r. slotKey r = k) (filter (\<lambda>r. s_status r = BOOKED) rows) =
        filter (\<lambda>r. s_courtId r = c \<and> s_bookingDate r = dt \<and> s_slotTime r = t
                           \<and> s_status r = BOOKED) rows"
    by (auto simp: slotKey_def k intro: filter_cong)
  then show "length (filter (\<lambda>r. slotKey r = k) (filter (\<lambda>r. s_status r = BOOKED) rows)) \<le> 1"
    using assms [of c dt t] by simp
qed

text \<open>
  Claim C1. Take a database in which, for every court, date and slot label, at most
  one BookingSlot row has status BOOKED (one with an empty BookingSlot collection, for
  instance) and apply any sequence of \<^verbatim>\<open>createSingleBooking\<close>, booking status update,
  booking deletion, expiry sweep and \<^verbatim>\<open>processRecurringBooking\<close>, with any arguments.
  In the state reached the same holds. Rows that are not BOOKED are not constrained: a
  state is reachable from an empty collection in which a CANCELLED row and a BOOKED row
  share their court, date and label.
\<close>

theorem booked_slot_unique:
  "((\<forall>c dt t. length (filter (\<lambda>r. s_courtId r = c \<and> s_bookingDate r = dt
                                 \<and> s_slotTime r = t \<and> s_status r = BOOKED)
                        (db_slots d0)) \<le> 1) \<longrightarrow>
      length (filter (\<lambda>r. s_courtId r = courtId \<and> s_bookingDate r = bookingDate
                          \<and> s_slotTime r = slotTime \<and> s_status r = BOOKED)
                (db_slots (runOperations operations d0))) \<le> 1)
   \<and> (\<exists>d1 ops r1 r2. db_slots d1 = []
         \<and> r1 \<in> set (db_slots (runOperations ops d1))
         \<and> r2 \<in> set (db_slots (runOperations ops d1))
         \<and> slotKey r1 = slotKey r2 \<and> s_status r1 = CANCELLED \<and> s_status r2 = BOOKED)"
proof (intro conjI impI)
  assume "\<forall>c dt t. length (filter (\<lambda>r. s_courtId r = c \<and> s_bookingDate r = dt
                                 \<and> s_slotTime r = t \<and> s_status r = BOOKED)
                        (db_slots d0)) \<le> 1"
  then have "distinct (bookedKeys (db_slots d0))" by (intro count_unique) blast
  then have "distinct (bookedKeys (db_slots (runOperations operations d0)))"
    by (rule runOperations_unique)
  then show "length (filter (\<lambda>r. s_courtId r = courtId \<and> s_bookingDate r = bookingDate
                          \<and> s_slotTime r = slotTime \<and> s_status r = BOOKED)
                (db_slots (runOperations operations d0))) \<le> 1"
    by (rule unique_count)
next
  let ?ops = "[CreateSingleBooking exampleData, UpdateBookingStatus 10 CANCELLED,
               CreateSingleBooking (exampleData\<lparr>d_skipAvailabilityCheck := Some True\<rparr>)]"
  let ?r1 = "\<lparr>s_bookingId = 10, s_courtId = 1, s_bookingDate = JSDate 19723 0,
              s_slotTime = ''06:00'', s_status = CANCELLED\<rparr>"
  let ?r2 = "\<lparr>s_bookingId = 11, s_courtId = 1, s_bookingDate = JSDate 19723 0,
              s_slotTime = ''06:00'', s_status = BOOKED\<rparr>"
  have "db_slots exampleDb = []" by (simp add: exampleDb_def)
  moreover have "?r1 \<in> set (db_slots (runOperations ?ops exampleDb))" by code_simp
  moreover have "?r2 \<in> set (db_slots (runOperations ?ops exampleDb))" by code_simp
  moreover have "slotKey ?r1 = slotKey ?r2 \<and> s_status ?r1 = CANCELLED \<and> s_status ?r2 = BOOKED"
    by (simp add: slotKey_def)
  ultimately show "\<exists>d1 ops r1 r2. db_slots d1 = []
         \<and> r1 \<in> set (db_slots (runOperations ops d1))
         \<and> r2 \<in> set (db_slots (runOperations ops d1))
         \<and> slotKey r1 = slotKey r2 \<and> s_status r1 = CANCELLED \<and> s_status r2 = BOOKED"
    by blast
qed

text \<open>
  The theorem after the example booking, a second request for the same range (which
  fails with the conflict), the cancellation of the first booking and a third request
  for the range: the label 06:00 of 2024-01-01 on court 1 has exactly one BOOKED row.
\<close>

theorem booked_slot_unique_witness:
  "db_slots exampleDb = []
   \<and> length (filter (\<lambda>r. s_courtId r = 1 \<and> s_bookingDate r = JSDate 19723 0
                        \<and> s_slotTime r = ''06:00'' \<and> s_status r = BOOKED)
        (db_slots (runOperations
           [CreateSingleBooking exampleData, CreateSingleBooking exampleData,
            UpdateBookingStatus 10 CANCELLED, CreateSingleBooking exampleData]
           exampleDb))) = 1"
proof -
  let ?ops = "[CreateSingleBooking exampleData, CreateSingleBooking exampleData,
            UpdateBookingStatus 10 CANCELLED, CreateSingleBooking exampleData]"
  let ?n = "length (filter (\<lambda>r. s_courtId r = 1 \<and> s_bookingDate r = JSDate 19723 0
                        \<and> s_slotTime r = ''06:00'' \<and> s_status r = BOOKED)
        (db_slots (runOperations ?ops exampleDb)))"
  have e: "db_slots exampleDb = []" by (simp add: exampleDb_def)
  have le: "?n \<le> 1"
    using booked_slot_unique [of exampleDb 1 "JSDate 19723 0" "''06:00''" ?ops] e by simp
  have ge: "1 \<le> ?n" by code_simp
  show ?thesis using e le ge by simp
qed

end
